theory Spec2Isabelle
  imports Main "HOL-Library.Word"
begin

section \<open>JavaScript strings and the regular-expression fragment the server uses\<close>

text \<open>
  A JavaScript string is a sequence of 16-bit code units. The server only ever writes
  ASCII literals; \<open>utf16\<close> embeds such a literal, one code unit per character.
\<close>

type_synonym jschar = "16 word"
type_synonym jsstring = "jschar list"

definition utf16 :: "string \<Rightarrow> jsstring" where
  "utf16 cs = map of_char cs"

text \<open>
  The character classes of the two kinds of pattern in the source, without the
  \<open>i\<close>, \<open>u\<close> or \<open>m\<close> flags: \<open>[A-Z]\<close>, the word characters that decide
  \<open>\b\<close> (\<open>[A-Za-z0-9_]\<close>) and \<open>\s\<close> (ECMAScript WhiteSpace and LineTerminator).
\<close>

definition is_upper :: "jschar \<Rightarrow> bool" where
  "is_upper c \<longleftrightarrow> 0x41 \<le> c \<and> c \<le> 0x5A"

definition is_word_char :: "jschar \<Rightarrow> bool" where
  "is_word_char c \<longleftrightarrow>
     (0x41 \<le> c \<and> c \<le> 0x5A) \<or> (0x61 \<le> c \<and> c \<le> 0x7A) \<or> (0x30 \<le> c \<and> c \<le> 0x39) \<or> c = 0x5F"

definition is_space :: "jschar \<Rightarrow> bool" where
  "is_space c \<longleftrightarrow>
     (0x09 \<le> c \<and> c \<le> 0x0D) \<or> c = 0x20 \<or> c = 0xA0 \<or> c = 0x1680 \<or>
     (0x2000 \<le> c \<and> c \<le> 0x200A) \<or> c = 0x2028 \<or> c = 0x2029 \<or> c = 0x202F \<or>
     c = 0x205F \<or> c = 0x3000 \<or> c = 0xFEFF"

text \<open>
  \<open>\b\<close> holds at index \<open>i\<close> when exactly one of the code units before and at
  \<open>i\<close> is a word character; outside the string there is no word character.
\<close>

definition is_word_boundary :: "jsstring \<Rightarrow> nat \<Rightarrow> bool" where
  "is_word_boundary s i \<longleftrightarrow>
     (0 < i \<and> i - 1 < length s \<and> is_word_char (s ! (i - 1))) \<noteq> (i < length s \<and> is_word_char (s ! i))"

text \<open>
  The patterns of the source are sequences of these atoms: a literal code unit, \<open>\b\<close>,
  \<open>$\<close>, and a greedy repetition \<open>C{n,}\<close> of a character class (\<open>C*\<close> is \<open>C{0,}\<close>).
\<close>

datatype atom = Lit jschar | WordBoundary | EndOfInput | Many nat "jschar \<Rightarrow> bool"

fun first_some :: "('a \<Rightarrow> 'b option) \<Rightarrow> 'a list \<Rightarrow> 'b option" where
  "first_some f [] = None"
| "first_some f (x # xs) = (case f x of Some y \<Rightarrow> Some y | None \<Rightarrow> first_some f xs)"

text \<open>
  Backtracking match of a pattern at index \<open>i\<close>, giving the end index of the match.
  A greedy repetition first takes the longest run of the class and gives code units back
  one at a time, down to its minimum, until the rest of the pattern matches.
\<close>

fun rx_match :: "atom list \<Rightarrow> jsstring \<Rightarrow> nat \<Rightarrow> nat option" where
  "rx_match [] s i = Some i"
| "rx_match (Lit c # r) s i = (if i < length s \<and> s ! i = c then rx_match r s (Suc i) else None)"
| "rx_match (WordBoundary # r) s i = (if is_word_boundary s i then rx_match r s i else None)"
| "rx_match (EndOfInput # r) s i = (if i = length s then rx_match r s i else None)"
| "rx_match (Many n C # r) s i =
     first_some (\<lambda>k. rx_match r s (i + k)) (rev [n ..< Suc (length (takeWhile C (drop i s)))])"

text \<open>
  \<open>RegExp.prototype.exec\<close>: the leftmost match starting at or after \<open>lastIndex\<close>,
  as the match object's \<open>index\<close> and \<open>[0]\<close> (the matched text); \<open>None\<close> is \<open>null\<close>.
  \<open>test\<close> on a pattern without the \<open>g\<close> flag searches from index 0.
\<close>

record RegExpExecArray =
  index :: nat
  matched :: jsstring

definition rx_exec :: "atom list \<Rightarrow> jsstring \<Rightarrow> nat \<Rightarrow> RegExpExecArray option" where
  "rx_exec re s lastIndex =
     first_some (\<lambda>i. map_option (\<lambda>e. \<lparr>index = i, matched = take (e - i) (drop i s)\<rparr>) (rx_match re s i))
       [lastIndex ..< Suc (length s)]"

definition rx_test :: "atom list \<Rightarrow> jsstring \<Rightarrow> bool" where
  "rx_test re s \<longleftrightarrow> rx_exec re s 0 \<noteq> None"

text \<open>\<open>/\b[A-Z]{2,}\b/g\<close> and \<open>/<namespace>\.\s*$/\<close>.\<close>

definition pattern :: "atom list" where
  "pattern = [WordBoundary, Many 2 is_upper, WordBoundary]"

definition trigger :: "string \<Rightarrow> atom list" where
  "trigger ns = map Lit (utf16 ns) @ [Lit 0x2E, Many 0 is_space, EndOfInput]"

section \<open>Protocol data\<close>

record Position =
  line :: nat
  character :: nat

record Range =
  start :: Position
  end' :: Position

text \<open>
  A \<open>TextDocument\<close> of \<open>vscode-languageserver-textdocument\<close>. The server reads it
  only through its methods, which the library defines, so they are fields here:
  \<open>getText()\<close>, \<open>getText(range)\<close> and \<open>positionAt(offset)\<close>.
\<close>

record TextDocument =
  uri :: jsstring
  getText :: jsstring
  getTextRange :: "Range \<Rightarrow> jsstring"
  positionAt :: "nat \<Rightarrow> Position"

datatype DiagnosticSeverity = Error | Warning | Information | Hint

record Location =
  location_uri :: jsstring
  location_range :: Range

record DiagnosticRelatedInformation =
  location :: Location
  related_message :: jsstring

record Diagnostic =
  severity :: DiagnosticSeverity
  range' :: Range
  message :: jsstring
  source :: jsstring
  relatedInformation :: "DiagnosticRelatedInformation list option"

datatype DocumentDiagnosticReportKind = Full | Unchanged

record DocumentDiagnosticReport =
  report_kind :: DocumentDiagnosticReportKind
  items :: "Diagnostic list"

datatype CompletionItemKind = Method | Function | Field | Keyword

record CompletionItem =
  label :: jsstring
  kind :: CompletionItemKind
  data :: int
  detail :: "jsstring option"
  documentation :: "jsstring option"

record TextDocumentParams =
  textDocument_uri :: jsstring

record TextDocumentPositionParams = TextDocumentParams +
  position :: Position

section \<open>Server state and the settings of a document\<close>

record ExampleSettings =
  maxNumberOfProblems :: int

text \<open>
  A \<open>Thenable\<close> is either already resolved (\<open>Promise.resolve\<close>) or stands for the
  answer to the request the server sent at the given place of its outgoing requests.
  The client's answers are a parameter \<open>host\<close> of the handlers that await one;
  \<open>None\<close> is a request that is rejected or never answered.
\<close>

datatype 'a Thenable = Resolved 'a | Pending nat

datatype request = GetConfiguration jsstring jsstring | DiagnosticsRefresh

fun await :: "(nat \<Rightarrow> 'a option) \<Rightarrow> 'a Thenable \<Rightarrow> 'a option" where
  "await host (Resolved v) = Some v"
| "await host (Pending n) = host n"

record Server =
  hasConfigurationCapability :: bool
  hasWorkspaceFolderCapability :: bool
  hasDiagnosticRelatedInformationCapability :: bool
  globalSettings :: ExampleSettings
  documentSettings :: "jsstring \<rightharpoonup> ExampleSettings Thenable"
  documents :: "jsstring \<rightharpoonup> TextDocument"
  sent :: "request list"

definition defaultSettings :: ExampleSettings where
  "defaultSettings = \<lparr>maxNumberOfProblems = 1000\<rparr>"

datatype error = TypeError

text \<open>
  The notification's \<open>settings\<close> is \<open>None\<close> when the client sends none (reading
  \<open>change.settings.languageServerExample\<close> then throws), and otherwise holds the
  section \<open>languageServerExample\<close>, if there is one.
\<close>

record DidChangeConfigurationParams =
  settings :: "ExampleSettings option option"

definition refresh :: "Server \<Rightarrow> Server" where
  "refresh st = st\<lparr>sent := sent st @ [DiagnosticsRefresh]\<rparr>"

definition onDidChangeConfiguration :: "DidChangeConfigurationParams \<Rightarrow> Server \<Rightarrow> error + Server" where
  "onDidChangeConfiguration change st =
     (if hasConfigurationCapability st then
        Inr (refresh (st\<lparr>documentSettings := Map.empty\<rparr>))
      else
        (case settings change of
           None \<Rightarrow> Inl TypeError
         | Some section \<Rightarrow>
             Inr (refresh (st\<lparr>globalSettings :=
               (case section of Some v \<Rightarrow> v | None \<Rightarrow> defaultSettings)\<rparr>))))"

definition getDocumentSettings :: "jsstring \<Rightarrow> Server \<Rightarrow> ExampleSettings Thenable \<times> Server" where
  "getDocumentSettings resource st =
     (if \<not> hasConfigurationCapability st then (Resolved (globalSettings st), st)
      else
        (case documentSettings st resource of
           Some result \<Rightarrow> (result, st)
         | None \<Rightarrow>
             (let result = Pending (length (sent st))
              in (result,
                  st\<lparr>sent := sent st @ [GetConfiguration resource (utf16 ''languageServerExample'')],
                     documentSettings := (documentSettings st)(resource \<mapsto> result)\<rparr>))))"

definition onDidClose :: "jsstring \<Rightarrow> Server \<Rightarrow> Server" where
  "onDidClose document_uri st = st\<lparr>documentSettings := (documentSettings st)(document_uri := None)\<rparr>"

section \<open>The uppercase runs of a text\<close>

text \<open>
  What the validator looks for, in the words of its comment ("all uppercase words length
  2 and more"): code units \<open>i\<close> to \<open>j - 1\<close> of the text are a run of two or more
  uppercase Latin letters with a word boundary at each end. \<open>uppercase_runs\<close> lists the
  runs of a text by start and end offset, in the order of their start offsets.
\<close>

definition uppercase_run :: "jsstring \<Rightarrow> nat \<Rightarrow> nat \<Rightarrow> bool" where
  "uppercase_run s i j \<longleftrightarrow>
     i + 2 \<le> j \<and> j \<le> length s \<and> (\<forall>k\<in>{i..<j}. is_upper (s ! k)) \<and>
     is_word_boundary s i \<and> is_word_boundary s j"

definition runs_from :: "jsstring \<Rightarrow> nat \<Rightarrow> (nat \<times> nat) list" where
  "runs_from s l =
     filter (\<lambda>(i, j). uppercase_run s i j) (List.product [l ..< Suc (length s)] [0 ..< Suc (length s)])"

definition uppercase_runs :: "jsstring \<Rightarrow> (nat \<times> nat) list" where
  "uppercase_runs s = runs_from s 0"

subsection \<open>A match of the pattern is an uppercase run\<close>

lemma first_some_None: "first_some f xs = None \<longleftrightarrow> (\<forall>x\<in>set xs. f x = None)"
  by (induction xs) (auto split: option.splits)

lemma first_some_greedy:
  assumes "\<And>k. n \<le> k \<Longrightarrow> k < K \<Longrightarrow> f k = None"
  shows "first_some f (rev [n ..< Suc K]) = (if n \<le> K then f K else None)"
proof (cases "n \<le> K")
  case True
  have "first_some f (rev [n ..< K]) = None"
    using assms by (simp add: first_some_None)
  with True show ?thesis by (simp split: option.splits)
next
  case False
  then show ?thesis by simp
qed

lemma is_upper_word: "is_upper c \<Longrightarrow> is_word_char c"
  by (simp add: is_upper_def is_word_char_def)

lemma run_nth:
  assumes "k < length (takeWhile C (drop i s))"
  shows "i + k < length s \<and> C (s ! (i + k))"
proof -
  have le: "length (takeWhile C (drop i s)) \<le> length (drop i s)"
    by (rule length_takeWhile_le)
  with assms have k: "k < length (drop i s)" by linarith
  have "takeWhile C (drop i s) ! k \<in> set (takeWhile C (drop i s))"
    using assms by simp
  then have "C (takeWhile C (drop i s) ! k)" by (auto dest: set_takeWhileD)
  moreover have "takeWhile C (drop i s) ! k = drop i s ! k" using assms by (simp add: takeWhile_nth)
  ultimately show ?thesis using k by simp
qed

lemma run_ge:
  assumes "\<forall>k\<in>{i..<j}. C (s ! k)" "j \<le> length s"
  shows "j - i \<le> length (takeWhile C (drop i s))"
  using assms by (intro length_takeWhile_less_P_nth) auto

lemma inner_not_boundary:
  assumes "0 < k" "k < length (takeWhile is_upper (drop i s))"
  shows "\<not> is_word_boundary s (i + k)"
proof -
  from assms have "k - 1 < length (takeWhile is_upper (drop i s))" by simp
  from run_nth[OF this] run_nth[OF assms(2)] assms(1) show ?thesis
    by (auto simp: is_word_boundary_def dest: is_upper_word)
qed

lemma rx_match_pattern:
  "rx_match pattern s i =
     (let K = length (takeWhile is_upper (drop i s))
      in if is_word_boundary s i \<and> 2 \<le> K \<and> is_word_boundary s (i + K) then Some (i + K) else None)"
proof -
  let ?K = "length (takeWhile is_upper (drop i s))"
  let ?f = "\<lambda>k. if is_word_boundary s (i + k) then Some (i + k) else None"
  have "first_some ?f (rev [2 ..< Suc ?K]) = (if 2 \<le> ?K then ?f ?K else None)"
    by (rule first_some_greedy) (simp add: inner_not_boundary)
  moreover have "rx_match pattern s i =
      (if is_word_boundary s i then first_some ?f (rev [2 ..< Suc ?K]) else None)"
    by (simp add: pattern_def del: upt_Suc cong: if_cong)
  ultimately show ?thesis by (simp add: Let_def)
qed

lemma rx_match_pattern_iff: "rx_match pattern s i = Some e \<longleftrightarrow> uppercase_run s i e"
proof
  let ?K = "length (takeWhile is_upper (drop i s))"
  assume "rx_match pattern s i = Some e"
  then have h: "is_word_boundary s i" "2 \<le> ?K" "is_word_boundary s (i + ?K)" "e = i + ?K"
    by (auto simp: rx_match_pattern Let_def split: if_splits)
  have "\<forall>k\<in>{i..<e}. is_upper (s ! k)"
  proof
    fix k assume "k \<in> {i..<e}"
    then have "k - i < ?K" using h(4) by auto
    from run_nth[OF this] \<open>k \<in> {i..<e}\<close> show "is_upper (s ! k)" by simp
  qed
  moreover have "e \<le> length s"
  proof -
    have "?K - 1 < ?K" using h(2) by simp
    from run_nth[OF this] show ?thesis using h(2,4) by arith
  qed
  ultimately show "uppercase_run s i e"
    using h by (simp add: uppercase_run_def)
next
  let ?K = "length (takeWhile is_upper (drop i s))"
  assume r: "uppercase_run s i e"
  then have ge: "e - i \<le> ?K" by (simp add: uppercase_run_def run_ge)
  have "\<not> e - i < ?K"
  proof
    assume lt: "e - i < ?K"
    have "0 < e - i" using r by (simp add: uppercase_run_def)
    from inner_not_boundary[OF this lt] r show False by (simp add: uppercase_run_def)
  qed
  with ge have "e = i + ?K" using r unfolding uppercase_run_def by linarith
  with r show "rx_match pattern s i = Some e"
    by (simp add: rx_match_pattern Let_def uppercase_run_def)
qed

lemma first_some_nth:
  "first_some f xs = Some y \<Longrightarrow>
     \<exists>n<length xs. f (xs ! n) = Some y \<and> (\<forall>k<n. f (xs ! k) = None)"
proof (induction xs)
  case Nil
  then show ?case by simp
next
  case (Cons x xs)
  show ?case
  proof (cases "f x")
    case None
    with Cons.prems have "first_some f xs = Some y" by simp
    from Cons.IH[OF this] obtain n where
      n: "n < length xs" "f (xs ! n) = Some y" "\<forall>k<n. f (xs ! k) = None" by blast
    have "\<forall>k<Suc n. f ((x # xs) ! k) = None"
      using n(3) None by (simp add: nth_Cons split: nat.splits)
    with n(1,2) show ?thesis by (intro exI[of _ "Suc n"]) simp
  next
    case (Some z)
    with Cons.prems show ?thesis by (intro exI[of _ 0]) simp
  qed
qed

lemma rx_exec_SomeD:
  assumes "rx_exec re s l = Some m"
  shows "\<exists>i e. l \<le> i \<and> i \<le> length s \<and> rx_match re s i = Some e \<and>
           m = \<lparr>index = i, matched = take (e - i) (drop i s)\<rparr> \<and>
           (\<forall>k. l \<le> k \<and> k < i \<longrightarrow> rx_match re s k = None)"
proof -
  let ?f = "\<lambda>i. map_option (\<lambda>e. \<lparr>index = i, matched = take (e - i) (drop i s)\<rparr>) (rx_match re s i)"
  from assms have "first_some ?f [l ..< Suc (length s)] = Some m" by (simp add: rx_exec_def)
  from first_some_nth[OF this] obtain n where
    n: "n < Suc (length s) - l" "?f (l + n) = Some m" "\<forall>k<n. ?f (l + k) = None"
    by (auto simp del: upt_Suc)
  from n(2) obtain e where e: "rx_match re s (l + n) = Some e"
    "m = \<lparr>index = l + n, matched = take (e - (l + n)) (drop (l + n) s)\<rparr>" by auto
  have "\<forall>k. l \<le> k \<and> k < l + n \<longrightarrow> rx_match re s k = None"
  proof (intro allI impI)
    fix k assume "l \<le> k \<and> k < l + n"
    then have "k - l < n" "l + (k - l) = k" by auto
    with n(3) show "rx_match re s k = None" by fastforce
  qed
  with n(1) e show ?thesis by (intro exI[of _ "l + n"] exI[of _ e]) simp
qed

lemma rx_exec_None: "rx_exec re s l = None \<longleftrightarrow> (\<forall>i. l \<le> i \<and> i \<le> length s \<longrightarrow> rx_match re s i = None)"
  by (auto simp: rx_exec_def first_some_None simp del: upt_Suc)

lemma rx_exec_pattern_SomeD:
  assumes "rx_exec pattern s l = Some m"
  shows "l \<le> index m \<and> uppercase_run s (index m) (index m + length (matched m)) \<and>
         matched m = take (length (matched m)) (drop (index m) s) \<and>
         (\<forall>k. l \<le> k \<and> k < index m \<longrightarrow> rx_match pattern s k = None)"
proof -
  from rx_exec_SomeD[OF assms] obtain i e where
    h: "l \<le> i" "rx_match pattern s i = Some e" "m = \<lparr>index = i, matched = take (e - i) (drop i s)\<rparr>"
       "\<forall>k. l \<le> k \<and> k < i \<longrightarrow> rx_match pattern s k = None" by blast
  from h(2) have r: "uppercase_run s i e" by (simp add: rx_match_pattern_iff)
  then have "length (take (e - i) (drop i s)) = e - i" "i + (e - i) = e"
    by (auto simp: uppercase_run_def)
  with h r show ?thesis by simp
qed

lemma rx_exec_pattern_advance:
  assumes "rx_exec pattern s l = Some m"
  shows "l < index m + length (matched m) \<and> index m + length (matched m) \<le> length s"
  using rx_exec_pattern_SomeD[OF assms] by (auto simp: uppercase_run_def)

section \<open>The validator\<close>

text \<open>
  The \<open>while\<close> loop of \<open>validateTextDocument\<close>. Its state is the pattern's
  \<open>lastIndex\<close>, \<open>problems\<close> and \<open>diagnostics\<close>; \<open>exec\<close> runs before the
  comparison with \<open>maxNumberOfProblems\<close>, as \<open>&&\<close> evaluates its left operand first.
\<close>

function validate_loop ::
  "bool \<Rightarrow> TextDocument \<Rightarrow> ExampleSettings \<Rightarrow> jsstring \<Rightarrow> nat \<Rightarrow> nat \<Rightarrow> Diagnostic list
     \<Rightarrow> Diagnostic list" where
  "validate_loop related textDocument docSettings s lastIndex problems diagnostics =
     (case rx_exec pattern s lastIndex of
        None \<Rightarrow> diagnostics
      | Some m \<Rightarrow>
          if int problems < maxNumberOfProblems docSettings then
            (let r = \<lparr>start = positionAt textDocument (index m),
                      end' = positionAt textDocument (index m + length (matched m))\<rparr>;
                 diagnostic =
                   \<lparr>severity = Warning,
                    range' = r,
                    message = matched m @ utf16 '' is all uppercase.'',
                    source = utf16 ''ex'',
                    relatedInformation =
                      (if related then
                         Some [\<lparr>location = \<lparr>location_uri = uri textDocument, location_range = r\<rparr>,
                                related_message = utf16 ''Spelling matters''\<rparr>,
                               \<lparr>location = \<lparr>location_uri = uri textDocument, location_range = r\<rparr>,
                                related_message = utf16 ''Particularly for names''\<rparr>]
                       else None)\<rparr>
             in validate_loop related textDocument docSettings s (index m + length (matched m))
                  (Suc problems) (diagnostics @ [diagnostic]))
          else diagnostics)"
  by pat_completeness auto
termination
proof (relation "measure (\<lambda>(related, textDocument, docSettings, s, lastIndex, problems, diagnostics).
                            Suc (length s) - lastIndex)")
  show "wf (measure (\<lambda>(related, textDocument, docSettings, s, lastIndex, problems, diagnostics).
                       Suc (length s) - lastIndex))"
    by simp
next
  fix related :: bool and textDocument :: TextDocument and docSettings :: ExampleSettings
    and s :: jsstring and lastIndex problems :: nat and diagnostics :: "Diagnostic list"
    and m r diagnostic
  assume "rx_exec pattern s lastIndex = Some m"
  from rx_exec_pattern_advance[OF this]
  show "((related, textDocument, docSettings, s, index m + length (matched m), Suc problems,
          diagnostics @ [diagnostic]),
         (related, textDocument, docSettings, s, lastIndex, problems, diagnostics))
        \<in> measure (\<lambda>(related, textDocument, docSettings, s, lastIndex, problems, diagnostics).
                      Suc (length s) - lastIndex)"
    by simp arith
qed

declare validate_loop.simps [simp del]

text \<open>
  \<open>validateTextDocument\<close> awaits the document's settings and scans the whole text from
  \<open>lastIndex = 0\<close>. Without settings (the request failed) there is no result.
\<close>

definition validateTextDocument ::
  "(nat \<Rightarrow> ExampleSettings option) \<Rightarrow> TextDocument \<Rightarrow> Server \<Rightarrow> Diagnostic list option \<times> Server" where
  "validateTextDocument host textDocument st =
     (let (promise, st') = getDocumentSettings (uri textDocument) st
      in (case await host promise of
            None \<Rightarrow> (None, st')
          | Some docSettings \<Rightarrow>
              (Some (validate_loop (hasDiagnosticRelatedInformationCapability st') textDocument
                       docSettings (getText textDocument) 0 0 []),
               st')))"

text \<open>The handler of the diagnostics pull request.\<close>

definition diagnostics_on ::
  "(nat \<Rightarrow> ExampleSettings option) \<Rightarrow> TextDocumentParams \<Rightarrow> Server
     \<Rightarrow> DocumentDiagnosticReport option \<times> Server" where
  "diagnostics_on host params st =
     (case documents st (textDocument_uri params) of
        Some document \<Rightarrow>
          (case validateTextDocument host document st of
             (None, st') \<Rightarrow> (None, st')
           | (Some ds, st') \<Rightarrow> (Some \<lparr>report_kind = Full, items = ds\<rparr>, st'))
      | None \<Rightarrow> (Some \<lparr>report_kind = Full, items = []\<rparr>, st))"

text \<open>The finding the validator builds for the run from offset \<open>fst run\<close> to \<open>snd run\<close>.\<close>

definition finding_of :: "bool \<Rightarrow> TextDocument \<Rightarrow> jsstring \<Rightarrow> nat \<times> nat \<Rightarrow> Diagnostic" where
  "finding_of related textDocument s run =
     \<lparr>severity = Warning,
      range' = \<lparr>start = positionAt textDocument (fst run), end' = positionAt textDocument (snd run)\<rparr>,
      message = take (snd run - fst run) (drop (fst run) s) @ utf16 '' is all uppercase.'',
      source = utf16 ''ex'',
      relatedInformation =
        (if related then
           Some [\<lparr>location = \<lparr>location_uri = uri textDocument,
                               location_range = \<lparr>start = positionAt textDocument (fst run),
                                                  end' = positionAt textDocument (snd run)\<rparr>\<rparr>,
                  related_message = utf16 ''Spelling matters''\<rparr>,
                 \<lparr>location = \<lparr>location_uri = uri textDocument,
                               location_range = \<lparr>start = positionAt textDocument (fst run),
                                                  end' = positionAt textDocument (snd run)\<rparr>\<rparr>,
                  related_message = utf16 ''Particularly for names''\<rparr>]
         else None)\<rparr>"

section \<open>Completion\<close>

text \<open>
  The completion items are written in the source with \<open>label\<close>, \<open>kind\<close> and
  \<open>data\<close> only; \<open>detail\<close> and \<open>documentation\<close> are absent until resolved.
\<close>

definition item :: "string \<Rightarrow> CompletionItemKind \<Rightarrow> int \<Rightarrow> CompletionItem" where
  "item l k d = \<lparr>label = utf16 l, kind = k, data = d, detail = None, documentation = None\<rparr>"

text \<open>The array literals of \<open>onCompletion\<close> in \<open>server.js\<close>, in the order of its tests.\<close>

definition strings_catalog :: "CompletionItem list" where
  "strings_catalog =
     [item ''has_prefix()'' Method 1,
      item ''has_suffix()'' Method 2,
      item ''join()'' Method 3,
      item ''trim_prefix()'' Method 4,
      item ''to_lower()'' Method 5,
      item ''to_upper()'' Method 6,
      item ''split()'' Method 7]"

definition json_catalog :: "CompletionItem list" where
  "json_catalog =
     [item ''marshal()'' Method 1,
      item ''unmarshal()'' Method 2]"

definition http_catalog :: "CompletionItem list" where
  "http_catalog =
     [item ''get()'' Method 1,
      item ''request()'' Method 2,
      item ''post()'' Method 3,
      item ''client'' Field 4,
      item ''accept_status_codes'' Function 5]"

definition types_catalog :: "CompletionItem list" where
  "types_catalog =
     [item ''type_of()'' Method 1]"

definition base64_catalog :: "CompletionItem list" where
  "base64_catalog =
     [item ''encode()'' Method 1,
      item ''decode()'' Method 2,
      item ''urlencode()'' Method 3,
      item ''urldecode()'' Method 4]"

definition time_catalog :: "CompletionItem list" where
  "time_catalog =
     [item ''now'' Field 1,
      item ''load()'' Method 2,
      item ''second'' Field 3,
      item ''millisecond'' Field 4,
      item ''nanosecond'' Field 5,
      item ''microsecond'' Field 6,
      item ''minute'' Field 7,
      item ''hour'' Field 8]"

definition decimal_catalog :: "CompletionItem list" where
  "decimal_catalog =
     [item ''infinity()'' Method 1,
      item ''new()'' Method 2,
      item ''is_nan()'' Method 3,
      item ''nan'' Field 4,
      item ''is_infinite()'' Method 5,
      item ''string'' Field 6,
      item ''sign'' Field 7,
      item ''coefficient'' Field 8,
      item ''exponent'' Field 9,
      item ''float'' Field 10,
      item ''is()'' Method 11,
      item ''is_not()'' Method 12,
      item ''less_than()'' Method 13,
      item ''less_than_or_equals()'' Method 14,
      item ''greater_than()'' Method 15,
      item ''greater_than_or_equals()'' Method 16,
      item ''add()'' Method 17,
      item ''substract()'' Method 17,
      item ''multiply()'' Method 18,
      item ''divide()'' Method 19,
      item ''modulo()'' Method 20,
      item ''power()'' Method 21,
      item ''loge()'' Method 22,
      item ''sqaure_root()'' Method 23,
      item ''ceiling()'' Method 24,
      item ''floor()'' Method 25,
      item ''absolute()'' Method 26,
      item ''negate()'' Method 26]"

definition default_catalog :: "CompletionItem list" where
  "default_catalog =
     [item ''import'' Keyword 1,
      item ''for'' Keyword 2,
      item ''as'' Keyword 3,
      item ''filter'' Keyword 4,
      item ''if'' Keyword 5,
      item ''break'' Keyword 6,
      item ''continue'' Keyword 7,
      item ''in'' Keyword 8,
      item ''null'' Keyword 9,
      item ''rule'' Keyword 10,
      item ''param'' Keyword 11,
      item ''default'' Keyword 12,
      item ''map'' Keyword 13,
      item ''strings'' Keyword 14,
      item ''json'' Keyword 15,
      item ''http'' Keyword 16,
      item ''types'' Keyword 17,
      item ''decimal'' Keyword 18,
      item ''base64'' Keyword 19,
      item ''time'' Keyword 20,
      item ''print()'' Method 21,
      item ''error()'' Method 22,
      item ''length()'' Method 23,
      item ''append()'' Method 24,
      item ''delete()'' Method 25,
      item ''range()'' Method 26,
      item ''keys()'' Method 27,
      item ''values()'' Method 28,
      item ''int()'' Method 29,
      item ''string()'' Method 30,
      item ''float()'' Method 30,
      item ''bool()'' Method 31,
      item ''case'' Method 32,
      item ''when'' Method 33,
      item ''all'' Method 34,
      item ''any'' Method 35,
      item ''func()'' Method 36,
      item ''return'' Keyword 37,
      item ''undefined'' Keyword 37]"

text \<open>
  The tests of \<open>onCompletion\<close> on \<open>line\<close>, the text of the current line up to the
  cursor: the first pattern that matches decides.
\<close>

definition classify :: "jsstring \<Rightarrow> CompletionItem list" where
  "classify line_text =
     (if rx_test (trigger ''strings'') line_text then strings_catalog
      else if rx_test (trigger ''json'') line_text then json_catalog
      else if rx_test (trigger ''http'') line_text then http_catalog
      else if rx_test (trigger ''types'') line_text then types_catalog
      else if rx_test (trigger ''base64'') line_text then base64_catalog
      else if rx_test (trigger ''time'') line_text then time_catalog
      else if rx_test (trigger ''decimal'') line_text then decimal_catalog
      else default_catalog)"

definition onCompletion :: "TextDocumentPositionParams \<Rightarrow> Server \<Rightarrow> CompletionItem list" where
  "onCompletion params st =
     (case documents st (textDocument_uri params) of
        None \<Rightarrow> []
      | Some document \<Rightarrow>
          classify (getTextRange document
            \<lparr>start = \<lparr>line = line (position params), character = 0\<rparr>, end' = position params\<rparr>))"

text \<open>
  \<open>server.ts\<close> holds another \<open>onCompletion\<close>, which does not look at the document:
  it returns one list for every request.
\<close>

definition onCompletion_ts :: "TextDocumentPositionParams \<Rightarrow> CompletionItem list" where
  \<open>onCompletion_ts params =
     [item ''import'' Keyword 1,
      item ''for'' Keyword 2,
      item ''length()'' Method 3,
      item ''has_prefix()'' Method 4,
      item ''as'' Keyword 5,
      item ''filter'' Keyword 6,
      item ''if'' Keyword 8,
      item ''break'' Keyword 9,
      item ''continue'' Keyword 10,
      item ''has_suffix()'' Method 11,
      item ''in'' Keyword 12,
      item ''null'' Keyword 13,
      item ''print()'' Method 14,
      item ''append()'' Method 15,
      item ''delete()'' Method 16,
      item ''rule'' Keyword 17,
      item ''param'' Keyword 18,
      item ''default'' Keyword 19,
      item ''range()'' Keyword 20,
      item ''keys()'' Keyword 21,
      item ''map'' Keyword 22,
      item ''"strings"'' Keyword 23,
      item ''"json"'' Keyword 24,
      item ''"http"'' Keyword 25,
      item ''"types"'' Keyword 26,
      item ''"decimal"'' Keyword 27,
      item ''"base64"'' Keyword 28,
      item ''"time"'' Keyword 29]\<close>

definition onCompletionResolve :: "CompletionItem \<Rightarrow> CompletionItem" where
  "onCompletionResolve completionItem =
     (if data completionItem = 1 then
        completionItem\<lparr>detail := Some (utf16 ''Import plugin or standard library''),
                       documentation := Some (utf16 ''Import keyword allow us to import libraries'')\<rparr>
      else completionItem)"

section \<open>Example documents and servers\<close>

text \<open>
  A document whose text has no line break, as the library presents it: every offset is
  on line 0, and a range of line 0 selects the code units between its two characters.
  \<open>global_server\<close> is a server whose client has no \<open>workspace/configuration\<close>
  request, with one open document and the given global limit. \<open>scoped_server\<close> is
  a server whose client has the request, after it has asked for the settings of one uri.
\<close>

definition single_line_document :: "string \<Rightarrow> string \<Rightarrow> TextDocument" where
  "single_line_document u t =
     \<lparr>uri = utf16 u,
      getText = utf16 t,
      getTextRange = (\<lambda>r. take (character (end' r) - character (start r)) (drop (character (start r)) (utf16 t))),
      positionAt = (\<lambda>offset. \<lparr>line = 0, character = min offset (length t)\<rparr>)\<rparr>"

definition scoped_server :: "jsstring \<Rightarrow> Server" where
  "scoped_server u =
     \<lparr>hasConfigurationCapability = True,
      hasWorkspaceFolderCapability = False,
      hasDiagnosticRelatedInformationCapability = False,
      globalSettings = defaultSettings,
      documentSettings = [u \<mapsto> Pending 0],
      documents = Map.empty,
      sent = [GetConfiguration u (utf16 ''languageServerExample'')]\<rparr>"

definition global_server :: "bool \<Rightarrow> int \<Rightarrow> TextDocument \<Rightarrow> Server" where
  "global_server related n document =
     \<lparr>hasConfigurationCapability = False,
      hasWorkspaceFolderCapability = False,
      hasDiagnosticRelatedInformationCapability = related,
      globalSettings = \<lparr>maxNumberOfProblems = n\<rparr>,
      documentSettings = Map.empty,
      documents = [uri document \<mapsto> document],
      sent = []\<rparr>"

section \<open>The findings of the validator\<close>

subsection \<open>The runs of a text, from one match to the next\<close>

lemma filter_product:
  "filter P (List.product xs ys) = concat (map (\<lambda>x. map (Pair x) (filter (\<lambda>y. P (x, y)) ys)) xs)"
  by (induction xs) (simp_all add: filter_map comp_def)

lemma filter_eq_upt: "e < m \<Longrightarrow> filter (\<lambda>j. j = e) [0 ..< m] = [e]"
  by (induction m) (auto simp: less_Suc_eq)

lemma runs_at:
  "filter (uppercase_run s i) [0 ..< Suc (length s)] =
     (case rx_match pattern s i of None \<Rightarrow> [] | Some e \<Rightarrow> [e])"
proof (cases "rx_match pattern s i")
  case None
  then have "\<And>j. \<not> uppercase_run s i j" by (simp flip: rx_match_pattern_iff)
  with None show ?thesis by simp
next
  case (Some e)
  then have "uppercase_run s i = (\<lambda>j. j = e)" by (auto simp flip: rx_match_pattern_iff)
  moreover have "e < Suc (length s)"
    using Some by (simp add: rx_match_pattern_iff uppercase_run_def)
  ultimately show ?thesis using Some filter_eq_upt[of e "Suc (length s)"] by simp
qed

lemma runs_from_concat:
  "runs_from s l =
     concat (map (\<lambda>i. case rx_match pattern s i of None \<Rightarrow> [] | Some e \<Rightarrow> [(i, e)]) [l ..< Suc (length s)])"
proof -
  have "\<And>i. map (Pair i) (filter (uppercase_run s i) [0 ..< Suc (length s)]) =
          (case rx_match pattern s i of None \<Rightarrow> [] | Some e \<Rightarrow> [(i, e)])"
    by (simp only: runs_at split: option.splits) simp
  then show ?thesis
    by (simp only: runs_from_def filter_product prod.case)
qed

lemma upt_split: "i \<le> j \<Longrightarrow> j \<le> k \<Longrightarrow> [i ..< k] = [i ..< j] @ [j ..< k]"
  using upt_add_eq_append[of i j "k - j"] by simp

lemma concat_map_Nil: "(\<And>x. x \<in> set xs \<Longrightarrow> g x = []) \<Longrightarrow> concat (map g xs) = []"
  by simp

lemma runs_from_None: "rx_exec pattern s l = None \<Longrightarrow> runs_from s l = []"
  unfolding runs_from_concat by (rule concat_map_Nil) (auto simp: rx_exec_None)

lemma inside_run_no_match:
  assumes "uppercase_run s i e" "i < k" "k < e"
  shows "rx_match pattern s k = None"
proof -
  from assms have "k - 1 \<in> {i..<e}" "k \<in> {i..<e}" "k < length s" "0 < k"
    by (auto simp: uppercase_run_def)
  with assms(1) have "is_upper (s ! (k - 1))" "is_upper (s ! k)"
    unfolding uppercase_run_def by blast+
  then have "\<not> is_word_boundary s k"
    using \<open>k < length s\<close> \<open>0 < k\<close> by (simp add: is_word_boundary_def is_upper_word)
  then show ?thesis by (simp add: rx_match_pattern)
qed

lemma runs_from_Some:
  assumes "rx_exec pattern s l = Some m"
  shows "runs_from s l =
           (index m, index m + length (matched m)) # runs_from s (index m + length (matched m))"
proof -
  let ?i = "index m" and ?e = "index m + length (matched m)"
  let ?g = "\<lambda>i. case rx_match pattern s i of None \<Rightarrow> [] | Some e \<Rightarrow> [(i, e)]"
  from rx_exec_pattern_SomeD[OF assms] have
    h: "l \<le> ?i" "uppercase_run s ?i ?e" "\<forall>k. l \<le> k \<and> k < ?i \<longrightarrow> rx_match pattern s k = None"
    by blast+
  from h(2) have b: "?i < ?e" "?e \<le> length s" by (auto simp: uppercase_run_def)
  then have c: "Suc ?i \<le> ?e" "?e \<le> Suc (length s)" "?i < Suc (length s)" "?i \<le> Suc (length s)"
    by linarith+
  have split: "[l ..< Suc (length s)] = [l ..< ?i] @ ?i # [Suc ?i ..< ?e] @ [?e ..< Suc (length s)]"
  proof -
    have "[l ..< Suc (length s)] = [l ..< ?i] @ [?i ..< Suc (length s)]"
      using h(1) c(4) by (rule upt_split)
    also have "[?i ..< Suc (length s)] = ?i # [Suc ?i ..< Suc (length s)]"
      using c(3) by (rule upt_conv_Cons)
    also have "[Suc ?i ..< Suc (length s)] = [Suc ?i ..< ?e] @ [?e ..< Suc (length s)]"
      using c(1,2) by (rule upt_split)
    finally show ?thesis .
  qed
  have 1: "concat (map ?g [l ..< ?i]) = []"
    by (rule concat_map_Nil) (simp add: h(3))
  have 2: "?g ?i = [(?i, ?e)]"
    using h(2) by (simp flip: rx_match_pattern_iff)
  have 3: "concat (map ?g [Suc ?i ..< ?e]) = []"
    by (rule concat_map_Nil) (simp add: inside_run_no_match[OF h(2)])
  have "runs_from s l = concat (map ?g ([l ..< ?i] @ ?i # [Suc ?i ..< ?e] @ [?e ..< Suc (length s)]))"
    by (simp only: runs_from_concat flip: split)
  also have "\<dots> = concat (map ?g [l ..< ?i]) @ ?g ?i @ concat (map ?g [Suc ?i ..< ?e]) @
                    concat (map ?g [?e ..< Suc (length s)])"
    by (simp del: upt_Suc)
  also have "\<dots> = (?i, ?e) # concat (map ?g [?e ..< Suc (length s)])"
    by (simp only: 1 2 3 append_Nil append_Cons)
  finally show ?thesis by (simp only: runs_from_concat)
qed

subsection \<open>The loop lists the runs in order, up to the limit\<close>

lemma validate_loop_eq:
  "validate_loop related textDocument docSettings s l p ds =
     ds @ map (finding_of related textDocument s)
            (take (nat (maxNumberOfProblems docSettings - int p)) (runs_from s l))"
proof (induction related textDocument docSettings s l p ds rule: validate_loop.induct)
  case (1 related textDocument docSettings s lastIndex problems diagnostics)
  show ?case
  proof (cases "rx_exec pattern s lastIndex")
    case None
    then show ?thesis by (simp add: validate_loop.simps runs_from_None)
  next
    case (Some m)
    note rf = runs_from_Some[OF Some]
    from rx_exec_pattern_SomeD[OF Some]
    have mt: "matched m = take (length (matched m)) (drop (index m) s)" by blast
    show ?thesis
    proof (cases "int problems < maxNumberOfProblems docSettings")
      case True
      then have n: "nat (maxNumberOfProblems docSettings - int problems) =
                    Suc (nat (maxNumberOfProblems docSettings - int (Suc problems)))"
        by simp
      have fd: "finding_of related textDocument s (index m, index m + length (matched m)) =
          \<lparr>severity = Warning,
           range' = \<lparr>start = positionAt textDocument (index m),
                     end' = positionAt textDocument (index m + length (matched m))\<rparr>,
           message = matched m @ utf16 '' is all uppercase.'',
           source = utf16 ''ex'',
           relatedInformation =
             (if related then
                Some [\<lparr>location = \<lparr>location_uri = uri textDocument,
                                    location_range = \<lparr>start = positionAt textDocument (index m),
                        end' = positionAt textDocument (index m + length (matched m))\<rparr>\<rparr>,
                       related_message = utf16 ''Spelling matters''\<rparr>,
                      \<lparr>location = \<lparr>location_uri = uri textDocument,
                                    location_range = \<lparr>start = positionAt textDocument (index m),
                        end' = positionAt textDocument (index m + length (matched m))\<rparr>\<rparr>,
                       related_message = utf16 ''Particularly for names''\<rparr>]
              else None)\<rparr>"
        using mt by (simp add: finding_of_def)
      show ?thesis
        using "1.IH"[OF Some True refl refl] Some True
        by (subst validate_loop.simps) (simp only: rf n fd Let_def option.case if_True take_Suc_Cons list.map append_assoc append_Cons append_Nil)
    next
      case False
      then have "nat (maxNumberOfProblems docSettings - int problems) = 0" by simp
      with Some False show ?thesis by (simp add: validate_loop.simps)
    qed
  qed
qed

lemma uppercase_runs_set: "set (uppercase_runs s) = {(i, j). uppercase_run s i j}"
  by (auto simp: uppercase_runs_def runs_from_def uppercase_run_def)

lemma uppercase_runs_distinct: "distinct (uppercase_runs s)"
  unfolding uppercase_runs_def runs_from_def by (intro distinct_filter distinct_product) simp_all

lemma length_uppercase_runs: "length (uppercase_runs s) = card {(i, j). uppercase_run s i j}"
  using distinct_card[OF uppercase_runs_distinct, of s] by (simp add: uppercase_runs_set)

lemma getDocumentSettings_related:
  "hasDiagnosticRelatedInformationCapability (snd (getDocumentSettings u st)) =
     hasDiagnosticRelatedInformationCapability st"
  by (simp add: getDocumentSettings_def Let_def split: option.splits)

lemma validateTextDocument_Some:
  assumes "await host (fst (getDocumentSettings (uri textDocument) st)) = Some docSettings"
  shows "validateTextDocument host textDocument st =
           (Some (map (finding_of (hasDiagnosticRelatedInformationCapability st) textDocument
                         (getText textDocument))
                    (take (nat (maxNumberOfProblems docSettings)) (uppercase_runs (getText textDocument)))),
            snd (getDocumentSettings (uri textDocument) st))"
proof -
  obtain promise st' where g: "getDocumentSettings (uri textDocument) st = (promise, st')"
    by (cases "getDocumentSettings (uri textDocument) st")
  with assms have a: "await host promise = Some docSettings" by simp
  from g getDocumentSettings_related[of "uri textDocument" st]
  have f: "hasDiagnosticRelatedInformationCapability st' = hasDiagnosticRelatedInformationCapability st"
    by simp
  show ?thesis
    by (simp add: validateTextDocument_def g a f validate_loop_eq uppercase_runs_def)
qed

lemma runs_AA_BB_CC: "uppercase_runs (utf16 ''AA BB CC'') = [(0, 2), (3, 5), (6, 8)]"
  by code_simp

lemma runs_from_run: "(i, j) \<in> set (runs_from s l) \<Longrightarrow> uppercase_run s i j"
  by (simp add: runs_from_def)

lemma runs_from_chain:
  "k < length (runs_from s l) \<Longrightarrow>
     rx_exec pattern s (if k = 0 then l else snd (runs_from s l ! (k - 1))) =
       Some \<lparr>index = fst (runs_from s l ! k),
             matched = take (snd (runs_from s l ! k) - fst (runs_from s l ! k))
                         (drop (fst (runs_from s l ! k)) s)\<rparr>"
proof (induction k arbitrary: l)
  case 0
  then obtain m where m: "rx_exec pattern s l = Some m"
    using runs_from_None[of s l] by (cases "rx_exec pattern s l") auto
  from rx_exec_pattern_SomeD[OF m]
  have "matched m = take (length (matched m)) (drop (index m) s)" by blast
  then have "m = \<lparr>index = index m, matched = take (length (matched m)) (drop (index m) s)\<rparr>"
    by simp
  with m show ?case by (simp add: runs_from_Some[OF m])
next
  case (Suc k)
  then obtain m where m: "rx_exec pattern s l = Some m"
    using runs_from_None[of s l] by (cases "rx_exec pattern s l") auto
  let ?e = "index m + length (matched m)"
  note rf = runs_from_Some[OF m]
  from Suc.prems have k: "k < length (runs_from s ?e)" by (simp add: rf)
  from Suc.IH[OF k] show ?case
    by (cases k) (simp_all add: rf)
qed

lemma runs_from_ordered:
  assumes "Suc k < length (runs_from s l)"
  shows "snd (runs_from s l ! k) \<le> fst (runs_from s l ! Suc k)"
proof -
  from runs_from_chain[OF assms] rx_exec_pattern_SomeD[of s "snd (runs_from s l ! k)"]
  show ?thesis by fastforce
qed

lemma runs_let_X_FOO: "uppercase_runs (utf16 ''let X = FOO'') = [(8, 11)]"
  by code_simp

lemma take_runs_nth:
  assumes "k < length (take n (uppercase_runs s))"
  shows "take n (uppercase_runs s) ! k = runs_from s 0 ! k" "k < length (runs_from s 0)"
  using assms by (simp_all add: uppercase_runs_def)

lemma validate_let_X_FOO:
  "fst (validateTextDocument (\<lambda>n. None) (single_line_document u ''let X = FOO'')
          (global_server related 1000 (single_line_document u ''let X = FOO''))) =
     Some [finding_of related (single_line_document u ''let X = FOO'') (utf16 ''let X = FOO'') (8, 11)]"
proof -
  let ?doc = "single_line_document u ''let X = FOO''"
  have a: "await (\<lambda>n. None) (fst (getDocumentSettings (uri ?doc) (global_server related 1000 ?doc))) =
             Some \<lparr>maxNumberOfProblems = 1000\<rparr>"
    by (simp add: getDocumentSettings_def global_server_def)
  have t: "getText ?doc = utf16 ''let X = FOO''" by (simp add: single_line_document_def)
  have f: "hasDiagnosticRelatedInformationCapability (global_server related 1000 ?doc) = related"
    by (simp add: global_server_def)
  show ?thesis
    by (simp add: validateTextDocument_Some[OF a] t f runs_let_X_FOO)
qed

section \<open>The trigger patterns\<close>

text \<open>
  A trigger pattern matches a line exactly when the line ends with the namespace, a dot
  and nothing but white space. The two code units before the dot then decide the
  namespace, so no line matches two of the seven patterns.
\<close>

lemma rx_match_lits:
  "rx_match (map Lit cs @ r) s i =
     (if take (length cs) (drop i s) = cs then rx_match r s (i + length cs) else None)"
proof (induction cs arbitrary: i)
  case Nil
  then show ?case by simp
next
  case (Cons c cs)
  show ?case
  proof (cases "i < length s")
    case True
    then have "drop i s = s ! i # drop (Suc i) s" by (simp add: Cons_nth_drop_Suc)
    with True show ?thesis by (auto simp: Cons.IH)
  next
    case False
    then show ?thesis by simp
  qed
qed

lemma rx_match_spaces_end:
  "rx_match [Many 0 is_space, EndOfInput] s j =
     (if j \<le> length s \<and> (\<forall>c\<in>set (drop j s). is_space c) then Some (length s) else None)"
proof -
  let ?K = "length (takeWhile is_space (drop j s))"
  let ?f = "\<lambda>k. if j + k = length s then Some (j + k) else None"
  have le: "?K \<le> length (drop j s)" by (rule length_takeWhile_le)
  have "first_some ?f (rev [0 ..< Suc ?K]) = (if 0 \<le> ?K then ?f ?K else None)"
    using le by (intro first_some_greedy) auto
  moreover have "rx_match [Many 0 is_space, EndOfInput] s j = first_some ?f (rev [0 ..< Suc ?K])"
    by (simp del: upt_Suc cong: if_cong)
  moreover have "j + ?K = length s \<longleftrightarrow> j \<le> length s \<and> (\<forall>c\<in>set (drop j s). is_space c)"
  proof
    assume a: "j + ?K = length s"
    then have "?K = length (drop j s)" by simp
    then have "takeWhile is_space (drop j s) = drop j s"
      by (metis takeWhile_eq_take take_all order_refl)
    with a show "j \<le> length s \<and> (\<forall>c\<in>set (drop j s). is_space c)"
      by simp
  next
    assume b: "j \<le> length s \<and> (\<forall>c\<in>set (drop j s). is_space c)"
    then have "takeWhile is_space (drop j s) = drop j s"
      by simp
    then have "?K = length (drop j s)" by (simp only:)
    with b show "j + ?K = length s" by simp
  qed
  ultimately show ?thesis by auto
qed

lemma rx_match_trigger:
  "rx_match (trigger ns) s i \<noteq> None \<longleftrightarrow>
     take (length (utf16 ns @ [0x2E])) (drop i s) = utf16 ns @ [0x2E] \<and>
     (\<forall>c\<in>set (drop (i + length (utf16 ns @ [0x2E])) s). is_space c)"
proof -
  let ?lit = "utf16 ns @ [0x2E]"
  have t: "trigger ns = map Lit ?lit @ [Many 0 is_space, EndOfInput]"
    by (simp add: trigger_def)
  have "i + length ?lit \<le> length s" if "take (length ?lit) (drop i s) = ?lit"
  proof -
    from that have "length (take (length ?lit) (drop i s)) = length ?lit" by (simp only:)
    then show ?thesis by simp
  qed
  then show ?thesis
    unfolding t rx_match_lits rx_match_spaces_end by (auto split: if_splits)
qed

lemma rx_test_trigger:
  "rx_test (trigger ns) s \<longleftrightarrow>
     (\<exists>p ws. s = p @ utf16 ns @ [0x2E] @ ws \<and> (\<forall>c\<in>set ws. is_space c))"
proof
  assume "rx_test (trigger ns) s"
  then obtain i where "rx_match (trigger ns) s i \<noteq> None"
    by (auto simp: rx_test_def rx_exec_None)
  then have i: "take (length (utf16 ns @ [0x2E])) (drop i s) = utf16 ns @ [0x2E]"
    "\<forall>c\<in>set (drop (i + length (utf16 ns @ [0x2E])) s). is_space c"
    unfolding rx_match_trigger by blast+
  have "s = take i s @ take (length (utf16 ns @ [0x2E])) (drop i s) @
              drop (length (utf16 ns @ [0x2E])) (drop i s)"
    by (simp only: append_take_drop_id)
  also have "\<dots> = take i s @ utf16 ns @ [0x2E] @ drop (i + length (utf16 ns @ [0x2E])) s"
    by (simp only: i(1) drop_drop append_assoc add.commute)
  finally show "\<exists>p ws. s = p @ utf16 ns @ [0x2E] @ ws \<and> (\<forall>c\<in>set ws. is_space c)"
    using i(2) by blast
next
  assume "\<exists>p ws. s = p @ utf16 ns @ [0x2E] @ ws \<and> (\<forall>c\<in>set ws. is_space c)"
  then obtain p ws where s: "s = p @ utf16 ns @ [0x2E] @ ws" and ws: "\<forall>c\<in>set ws. is_space c"
    by blast
  have "rx_match (trigger ns) s (length p) \<noteq> None"
    unfolding rx_match_trigger using ws by (simp add: s)
  moreover have "length p \<le> length s" by (simp add: s)
  ultimately show "rx_test (trigger ns) s"
    by (auto simp: rx_test_def rx_exec_None)
qed

lemma dot_not_space: "\<not> is_space 0x2E"
  by (simp add: is_space_def)

lemma rx_test_trigger_tail:
  assumes "rx_test (trigger ns) s" "2 \<le> length ns"
  shows "take 2 (drop 1 (dropWhile is_space (rev s))) = take 2 (rev (utf16 ns))"
proof -
  from assms(1) obtain p ws where s: "s = p @ utf16 ns @ [0x2E] @ ws" and ws: "\<forall>c\<in>set ws. is_space c"
    by (auto simp: rx_test_trigger)
  have "rev s = rev ws @ 0x2E # (rev (utf16 ns) @ rev p)" by (simp add: s)
  then have "dropWhile is_space (rev s) = dropWhile is_space (rev ws) @ 0x2E # (rev (utf16 ns) @ rev p)"
    using dropWhile_append3[of is_space "0x2E" "rev ws" "rev (utf16 ns) @ rev p"]
    by (simp only: dot_not_space not_False_eq_True)
  moreover have "dropWhile is_space (rev ws) = []" using ws by simp
  ultimately have "drop 1 (dropWhile is_space (rev s)) = rev (utf16 ns) @ rev p" by simp
  then show ?thesis using assms(2) by (simp add: utf16_def)
qed

lemma triggers_exclusive:
  assumes "rx_test (trigger a) s" "rx_test (trigger b) s" "2 \<le> length a" "2 \<le> length b"
  shows "take 2 (rev (utf16 a)) = take 2 (rev (utf16 b))"
  using rx_test_trigger_tail[OF assms(1,3)] rx_test_trigger_tail[OF assms(2,4)] by simp

lemma not_both_triggers:
  assumes "rx_test (trigger a) s" "take 2 (rev (utf16 a)) \<noteq> take 2 (rev (utf16 b))"
    "2 \<le> length a" "2 \<le> length b"
  shows "\<not> rx_test (trigger b) s"
  using triggers_exclusive[OF assms(1) _ assms(3,4)] assms(2) by blast

lemma classify_strings_catalog: "rx_test (trigger ''strings'') s \<Longrightarrow> classify s = strings_catalog"
  by (simp add: classify_def)

lemma classify_json_catalog:
  assumes "rx_test (trigger ''json'') s" shows "classify s = json_catalog"
  using assms not_both_triggers[OF assms, of "''strings''"]
  by (simp add: classify_def utf16_def)

lemma classify_http_catalog:
  assumes "rx_test (trigger ''http'') s" shows "classify s = http_catalog"
  using assms not_both_triggers[OF assms, of "''strings''"] not_both_triggers[OF assms, of "''json''"]
  by (simp add: classify_def utf16_def)

lemma classify_types_catalog:
  assumes "rx_test (trigger ''types'') s" shows "classify s = types_catalog"
  using assms not_both_triggers[OF assms, of "''strings''"] not_both_triggers[OF assms, of "''json''"]
    not_both_triggers[OF assms, of "''http''"]
  by (simp add: classify_def utf16_def)

lemma classify_base64_catalog:
  assumes "rx_test (trigger ''base64'') s" shows "classify s = base64_catalog"
  using assms not_both_triggers[OF assms, of "''strings''"] not_both_triggers[OF assms, of "''json''"]
    not_both_triggers[OF assms, of "''http''"] not_both_triggers[OF assms, of "''types''"]
  by (simp add: classify_def utf16_def)

lemma classify_time_catalog:
  assumes "rx_test (trigger ''time'') s" shows "classify s = time_catalog"
  using assms not_both_triggers[OF assms, of "''strings''"] not_both_triggers[OF assms, of "''json''"]
    not_both_triggers[OF assms, of "''http''"] not_both_triggers[OF assms, of "''types''"]
    not_both_triggers[OF assms, of "''base64''"]
  by (simp add: classify_def utf16_def)

lemma classify_decimal_catalog:
  assumes "rx_test (trigger ''decimal'') s" shows "classify s = decimal_catalog"
  using assms not_both_triggers[OF assms, of "''strings''"] not_both_triggers[OF assms, of "''json''"]
    not_both_triggers[OF assms, of "''http''"] not_both_triggers[OF assms, of "''types''"]
    not_both_triggers[OF assms, of "''base64''"] not_both_triggers[OF assms, of "''time''"]
  by (simp add: classify_def utf16_def)

lemma rx_test_trigger_suffix:
  "\<forall>c\<in>set ws. is_space c \<Longrightarrow> rx_test (trigger ns) (p @ utf16 (ns @ ''.'') @ ws)"
  unfolding rx_test_trigger by (intro exI[of _ p] exI[of _ ws]) (simp add: utf16_def)

lemma default_labels_disjoint:
  "\<forall>i\<in>set (strings_catalog @ json_catalog @ http_catalog @ types_catalog @ base64_catalog @
              time_catalog @ decimal_catalog).
     label i \<notin> label ` set default_catalog"
  by code_simp

lemma default_catalog_not_namespace:
  "default_catalog \<notin> {strings_catalog, json_catalog, http_catalog, types_catalog,
                         base64_catalog, time_catalog, decimal_catalog}"
proof -
  have "hd default_catalog = item ''import'' Keyword 1" by (simp add: default_catalog_def)
  moreover have "hd strings_catalog \<noteq> item ''import'' Keyword 1" "hd json_catalog \<noteq> item ''import'' Keyword 1"
    "hd http_catalog \<noteq> item ''import'' Keyword 1" "hd types_catalog \<noteq> item ''import'' Keyword 1"
    "hd base64_catalog \<noteq> item ''import'' Keyword 1" "hd time_catalog \<noteq> item ''import'' Keyword 1"
    "hd decimal_catalog \<noteq> item ''import'' Keyword 1"
    by (simp_all add: strings_catalog_def json_catalog_def http_catalog_def types_catalog_def
        base64_catalog_def time_catalog_def decimal_catalog_def item_def)
  ultimately show ?thesis by auto
qed

lemma classify_range:
  "classify s \<in> {strings_catalog, json_catalog, http_catalog, types_catalog, base64_catalog,
                  time_catalog, decimal_catalog, default_catalog}"
  by (simp add: classify_def)

lemma no_trigger_in_assignment:
  "\<not> rx_test (trigger ''strings'') (utf16 ''x = '')" "\<not> rx_test (trigger ''json'') (utf16 ''x = '')"
  "\<not> rx_test (trigger ''http'') (utf16 ''x = '')" "\<not> rx_test (trigger ''types'') (utf16 ''x = '')"
  "\<not> rx_test (trigger ''base64'') (utf16 ''x = '')" "\<not> rx_test (trigger ''time'') (utf16 ''x = '')"
  "\<not> rx_test (trigger ''decimal'') (utf16 ''x = '')"
  by code_simp+

lemma onCompletion_ts_labels:
  "utf16 ''has_prefix()'' \<in> label ` set (onCompletion_ts params) \<and>
   utf16 ''return'' \<notin> label ` set (onCompletion_ts params)"
  by (simp add: onCompletion_ts_def item_def) (simp add: utf16_def)

subsection \<open>The items that resolving changes\<close>





section \<open>The claims of the specification\<close>

text \<open>
  C1. For every document text and every settings value with \<open>maxNumberOfProblems \<ge> 0\<close>,
  \<open>validateTextDocument\<close> returns exactly as many findings as the smaller of the number
  of word-boundary-delimited runs of two or more uppercase Latin letters in the text and
  \<open>maxNumberOfProblems\<close>. With \<open>maxNumberOfProblems = 0\<close> there is no finding, and the
  text \<open>AA BB CC\<close> with \<open>maxNumberOfProblems = 2\<close> gives two findings, for \<open>AA\<close> and
  \<open>BB\<close>.
\<close>

theorem validateTextDocument_count:
  assumes "await host (fst (getDocumentSettings (uri textDocument) st)) = Some docSettings"
    and "0 \<le> maxNumberOfProblems docSettings"
  shows "\<exists>ds. fst (validateTextDocument host textDocument st) = Some ds \<and>
           int (length ds) =
             min (int (card {(i, j). uppercase_run (getText textDocument) i j}))
                 (maxNumberOfProblems docSettings) \<and>
           (maxNumberOfProblems docSettings = 0 \<longrightarrow> ds = []) \<and>
           (getText textDocument = utf16 ''AA BB CC'' \<and> maxNumberOfProblems docSettings = 2 \<longrightarrow>
              map message ds = [utf16 ''AA is all uppercase.'', utf16 ''BB is all uppercase.''] \<and>
              map range' ds =
                [\<lparr>start = positionAt textDocument 0, end' = positionAt textDocument 2\<rparr>,
                 \<lparr>start = positionAt textDocument 3, end' = positionAt textDocument 5\<rparr>])"
proof -
  let ?s = "getText textDocument" and ?n = "maxNumberOfProblems docSettings"
  let ?ds = "map (finding_of (hasDiagnosticRelatedInformationCapability st) textDocument ?s)
               (take (nat ?n) (uppercase_runs ?s))"
  have r: "fst (validateTextDocument host textDocument st) = Some ?ds"
    by (simp add: validateTextDocument_Some[OF assms(1)])
  have c: "int (length ?ds) = min (int (card {(i, j). uppercase_run ?s i j})) ?n"
    using assms(2) by (simp add: length_uppercase_runs)
  have z: "?n = 0 \<longrightarrow> ?ds = []" by simp
  have e: "?s = utf16 ''AA BB CC'' \<and> ?n = 2 \<longrightarrow>
             map message ?ds = [utf16 ''AA is all uppercase.'', utf16 ''BB is all uppercase.''] \<and>
             map range' ?ds =
               [\<lparr>start = positionAt textDocument 0, end' = positionAt textDocument 2\<rparr>,
                \<lparr>start = positionAt textDocument 3, end' = positionAt textDocument 5\<rparr>]"
    by (simp add: runs_AA_BB_CC finding_of_def) (simp add: utf16_def)
  show ?thesis by (intro exI[of _ ?ds] conjI r c z e)
qed

theorem validateTextDocument_count_witness:
  "(let textDocument = single_line_document ''file:///a.sentinel'' ''AA BB CC'';
        st = global_server False 2 textDocument;
        host = (\<lambda>n. None)
    in await host (fst (getDocumentSettings (uri textDocument) st)) = Some \<lparr>maxNumberOfProblems = 2\<rparr> \<and>
       (\<exists>ds. fst (validateTextDocument host textDocument st) = Some ds \<and> length ds = 2 \<and>
          map message ds = [utf16 ''AA is all uppercase.'', utf16 ''BB is all uppercase.'']) \<and>
       card {(i, j). uppercase_run (getText textDocument) i j} = 3) \<and>
   (let textDocument = single_line_document ''file:///a.sentinel'' ''AA BB CC'';
        st = global_server False 0 textDocument;
        host = (\<lambda>n. None)
    in await host (fst (getDocumentSettings (uri textDocument) st)) = Some \<lparr>maxNumberOfProblems = 0\<rparr> \<and>
       fst (validateTextDocument host textDocument st) = Some [])"
proof -
  let ?d = "single_line_document ''file:///a.sentinel'' ''AA BB CC''"
  let ?h = "\<lambda>n::nat. None :: ExampleSettings option"
  have t: "getText ?d = utf16 ''AA BB CC''" by (simp add: single_line_document_def)
  have a2: "await ?h (fst (getDocumentSettings (uri ?d) (global_server False 2 ?d))) =
              Some \<lparr>maxNumberOfProblems = 2\<rparr>"
    by (simp add: getDocumentSettings_def global_server_def)
  have a0: "await ?h (fst (getDocumentSettings (uri ?d) (global_server False 0 ?d))) =
              Some \<lparr>maxNumberOfProblems = 0\<rparr>"
    by (simp add: getDocumentSettings_def global_server_def)
  have le2: "0 \<le> maxNumberOfProblems \<lparr>maxNumberOfProblems = 2\<rparr>" by simp
  have le0: "0 \<le> maxNumberOfProblems \<lparr>maxNumberOfProblems = 0\<rparr>" by simp
  have c: "card {(i, j). uppercase_run (getText ?d) i j} = 3"
    by (simp add: t runs_AA_BB_CC flip: length_uppercase_runs)
  have two: "\<exists>ds. fst (validateTextDocument ?h ?d (global_server False 2 ?d)) = Some ds \<and> length ds = 2 \<and>
          map message ds = [utf16 ''AA is all uppercase.'', utf16 ''BB is all uppercase.'']"
    using validateTextDocument_count[OF a2 le2]
  proof (elim exE conjE)
    fix ds
    assume d: "fst (validateTextDocument ?h ?d (global_server False 2 ?d)) = Some ds"
      "int (length ds) = min (int (card {(i, j). uppercase_run (getText ?d) i j}))
                           (maxNumberOfProblems \<lparr>maxNumberOfProblems = 2\<rparr>)"
      "getText ?d = utf16 ''AA BB CC'' \<and> maxNumberOfProblems \<lparr>maxNumberOfProblems = 2\<rparr> = 2 \<longrightarrow>
         map message ds = [utf16 ''AA is all uppercase.'', utf16 ''BB is all uppercase.''] \<and>
         map range' ds = [\<lparr>start = positionAt ?d 0, end' = positionAt ?d 2\<rparr>,
                          \<lparr>start = positionAt ?d 3, end' = positionAt ?d 5\<rparr>]"
    from d(2) have "length ds = 2" by (simp add: c)
    moreover from d(3) t have
      "map message ds = [utf16 ''AA is all uppercase.'', utf16 ''BB is all uppercase.'']" by simp
    ultimately show ?thesis using d(1) by (intro exI[of _ ds] conjI)
  qed
  have zero: "fst (validateTextDocument ?h ?d (global_server False 0 ?d)) = Some []"
    using validateTextDocument_count[OF a0 le0]
  proof (elim exE conjE)
    fix ds
    assume d: "fst (validateTextDocument ?h ?d (global_server False 0 ?d)) = Some ds"
      "maxNumberOfProblems \<lparr>maxNumberOfProblems = 0\<rparr> = 0 \<longrightarrow> ds = []"
    from d(2) have "ds = []" by simp
    with d(1) show ?thesis by simp
  qed
  show ?thesis unfolding Let_def by (intro conjI a2 a0 c two zero)
qed

text \<open>
  C2. For every document text the findings come in left-to-right, non-overlapping order:
  the \<open>k\<close>-th finding is for the \<open>k\<close>-th uppercase run of the text, which is the first
  match found from the end of the previous one (from offset 0 for the first). Each finding
  has severity Warning, the range from the position of the run's start offset to that of
  its end offset, the message \<open><matched text> is all uppercase.\<close> and the source
  \<open>ex\<close>. The text \<open>let X = FOO\<close> gives one finding, for \<open>FOO\<close>.
\<close>

theorem validateTextDocument_findings:
  assumes "await host (fst (getDocumentSettings (uri textDocument) st)) = Some docSettings"
  defines "s \<equiv> getText textDocument"
    and "runs \<equiv> take (nat (maxNumberOfProblems docSettings)) (uppercase_runs (getText textDocument))"
  shows "\<exists>ds. fst (validateTextDocument host textDocument st) = Some ds \<and>
           length ds = length runs \<and>
           (\<forall>k<length ds.
              uppercase_run s (fst (runs ! k)) (snd (runs ! k)) \<and>
              rx_exec pattern s (if k = 0 then 0 else snd (runs ! (k - 1))) =
                Some \<lparr>index = fst (runs ! k),
                      matched = take (snd (runs ! k) - fst (runs ! k)) (drop (fst (runs ! k)) s)\<rparr> \<and>
              (0 < k \<longrightarrow> snd (runs ! (k - 1)) \<le> fst (runs ! k)) \<and>
              severity (ds ! k) = Warning \<and>
              range' (ds ! k) = \<lparr>start = positionAt textDocument (fst (runs ! k)),
                                  end' = positionAt textDocument (snd (runs ! k))\<rparr> \<and>
              message (ds ! k) =
                take (snd (runs ! k) - fst (runs ! k)) (drop (fst (runs ! k)) s) @
                utf16 '' is all uppercase.'' \<and>
              source (ds ! k) = utf16 ''ex'') \<and>
           (s = utf16 ''let X = FOO'' \<and> 1 \<le> maxNumberOfProblems docSettings \<longrightarrow>
              map message ds = [utf16 ''FOO is all uppercase.''] \<and>
              map range' ds = [\<lparr>start = positionAt textDocument 8, end' = positionAt textDocument 11\<rparr>])"
proof -
  let ?f = "finding_of (hasDiagnosticRelatedInformationCapability st) textDocument s"
  let ?ds = "map ?f runs"
  have r: "fst (validateTextDocument host textDocument st) = Some ?ds"
    by (simp add: validateTextDocument_Some[OF assms(1)] s_def runs_def)
  have l: "length ?ds = length runs" by simp
  have each: "\<forall>k<length ?ds.
              uppercase_run s (fst (runs ! k)) (snd (runs ! k)) \<and>
              rx_exec pattern s (if k = 0 then 0 else snd (runs ! (k - 1))) =
                Some \<lparr>index = fst (runs ! k),
                      matched = take (snd (runs ! k) - fst (runs ! k)) (drop (fst (runs ! k)) s)\<rparr> \<and>
              (0 < k \<longrightarrow> snd (runs ! (k - 1)) \<le> fst (runs ! k)) \<and>
              severity (?ds ! k) = Warning \<and>
              range' (?ds ! k) = \<lparr>start = positionAt textDocument (fst (runs ! k)),
                                  end' = positionAt textDocument (snd (runs ! k))\<rparr> \<and>
              message (?ds ! k) =
                take (snd (runs ! k) - fst (runs ! k)) (drop (fst (runs ! k)) s) @
                utf16 '' is all uppercase.'' \<and>
              source (?ds ! k) = utf16 ''ex''"
  proof (intro allI impI)
    fix k assume "k < length ?ds"
    then have k: "k < length runs" by simp
    then have kn: "runs ! k = runs_from s 0 ! k" and kl: "k < length (runs_from s 0)"
      unfolding runs_def s_def by (rule take_runs_nth)+
    have prev: "0 < k \<Longrightarrow> runs ! (k - 1) = runs_from s 0 ! (k - 1)"
      using k unfolding runs_def s_def by (intro take_runs_nth(1)) (simp, arith)
    have "runs_from s 0 ! k \<in> set (runs_from s 0)" using kl by (rule nth_mem)
    then have 1: "uppercase_run s (fst (runs ! k)) (snd (runs ! k))"
      by (simp add: kn runs_from_run)
    have 2: "rx_exec pattern s (if k = 0 then 0 else snd (runs ! (k - 1))) =
                Some \<lparr>index = fst (runs ! k),
                      matched = take (snd (runs ! k) - fst (runs ! k)) (drop (fst (runs ! k)) s)\<rparr>"
    proof (cases "0 < k")
      case True
      with runs_from_chain[OF kl] prev[OF True] kn show ?thesis by simp
    next
      case False
      with runs_from_chain[OF kl] kn show ?thesis by simp
    qed
    have 3: "0 < k \<longrightarrow> snd (runs ! (k - 1)) \<le> fst (runs ! k)"
    proof
      assume p: "0 < k"
      then have "Suc (k - 1) < length (runs_from s 0)" using kl by simp
      from runs_from_ordered[OF this] p prev[OF p] kn show "snd (runs ! (k - 1)) \<le> fst (runs ! k)"
        by simp
    qed
    have 4: "severity (?ds ! k) = Warning"
      "range' (?ds ! k) = \<lparr>start = positionAt textDocument (fst (runs ! k)),
                            end' = positionAt textDocument (snd (runs ! k))\<rparr>"
      "message (?ds ! k) =
         take (snd (runs ! k) - fst (runs ! k)) (drop (fst (runs ! k)) s) @ utf16 '' is all uppercase.''"
      "source (?ds ! k) = utf16 ''ex''"
      using k by (simp_all add: finding_of_def)
    show "uppercase_run s (fst (runs ! k)) (snd (runs ! k)) \<and>
              rx_exec pattern s (if k = 0 then 0 else snd (runs ! (k - 1))) =
                Some \<lparr>index = fst (runs ! k),
                      matched = take (snd (runs ! k) - fst (runs ! k)) (drop (fst (runs ! k)) s)\<rparr> \<and>
              (0 < k \<longrightarrow> snd (runs ! (k - 1)) \<le> fst (runs ! k)) \<and>
              severity (?ds ! k) = Warning \<and>
              range' (?ds ! k) = \<lparr>start = positionAt textDocument (fst (runs ! k)),
                                  end' = positionAt textDocument (snd (runs ! k))\<rparr> \<and>
              message (?ds ! k) =
                take (snd (runs ! k) - fst (runs ! k)) (drop (fst (runs ! k)) s) @
                utf16 '' is all uppercase.'' \<and>
              source (?ds ! k) = utf16 ''ex''"
      by (intro conjI 1 2 3 4)
  qed
  have e: "s = utf16 ''let X = FOO'' \<and> 1 \<le> maxNumberOfProblems docSettings \<longrightarrow>
              map message ?ds = [utf16 ''FOO is all uppercase.''] \<and>
              map range' ?ds = [\<lparr>start = positionAt textDocument 8, end' = positionAt textDocument 11\<rparr>]"
  proof
    assume h: "s = utf16 ''let X = FOO'' \<and> 1 \<le> maxNumberOfProblems docSettings"
    then have t: "getText textDocument = utf16 ''let X = FOO''"
      and "1 \<le> maxNumberOfProblems docSettings"
      by (simp_all add: s_def)
    then have n: "nat (maxNumberOfProblems docSettings) = Suc (nat (maxNumberOfProblems docSettings - 1))"
      by arith
    have "runs = [(8, 11)]"
      unfolding runs_def t runs_let_X_FOO n by simp
    then show "map message ?ds = [utf16 ''FOO is all uppercase.''] \<and>
              map range' ?ds = [\<lparr>start = positionAt textDocument 8, end' = positionAt textDocument 11\<rparr>]"
      using h by (simp add: finding_of_def utf16_def)
  qed
  show ?thesis by (intro exI[of _ ?ds] conjI r l each e)
qed

theorem validateTextDocument_findings_witness:
  "let textDocument = single_line_document ''file:///a.sentinel'' ''let X = FOO'';
       st = global_server False 1000 textDocument;
       host = (\<lambda>n. None)
   in await host (fst (getDocumentSettings (uri textDocument) st)) = Some \<lparr>maxNumberOfProblems = 1000\<rparr> \<and>
      (\<exists>d. fst (validateTextDocument host textDocument st) = Some [d] \<and>
         severity d = Warning \<and>
         range' d = \<lparr>start = \<lparr>line = 0, character = 8\<rparr>, end' = \<lparr>line = 0, character = 11\<rparr>\<rparr> \<and>
         message d = utf16 ''FOO is all uppercase.'' \<and>
         source d = utf16 ''ex'') \<and>
      uppercase_run (getText textDocument) 8 11 \<and>
      rx_exec pattern (getText textDocument) 0 = Some \<lparr>index = 8, matched = utf16 ''FOO''\<rparr>"
proof -
  let ?d = "single_line_document ''file:///a.sentinel'' ''let X = FOO''"
  let ?st = "global_server False 1000 ?d"
  let ?h = "\<lambda>n::nat. None :: ExampleSettings option"
  let ?runs = "take (nat (maxNumberOfProblems \<lparr>maxNumberOfProblems = 1000\<rparr>)) (uppercase_runs (getText ?d))"
  have t: "getText ?d = utf16 ''let X = FOO''" by (simp add: single_line_document_def)
  have p: "positionAt ?d 8 = \<lparr>line = 0, character = 8\<rparr>" "positionAt ?d 11 = \<lparr>line = 0, character = 11\<rparr>"
    by (simp_all add: single_line_document_def)
  have a: "await ?h (fst (getDocumentSettings (uri ?d) ?st)) = Some \<lparr>maxNumberOfProblems = 1000\<rparr>"
    by (simp add: getDocumentSettings_def global_server_def)
  have runs: "?runs = [(8, 11)]" by (simp add: t runs_let_X_FOO)
  have m: "take (11 - 8) (drop 8 (utf16 ''let X = FOO'')) = utf16 ''FOO''"
    by (simp add: utf16_def)
  have main: "(\<exists>d. fst (validateTextDocument ?h ?d ?st) = Some [d] \<and>
         severity d = Warning \<and>
         range' d = \<lparr>start = \<lparr>line = 0, character = 8\<rparr>, end' = \<lparr>line = 0, character = 11\<rparr>\<rparr> \<and>
         message d = utf16 ''FOO is all uppercase.'' \<and>
         source d = utf16 ''ex'') \<and>
      uppercase_run (getText ?d) 8 11 \<and>
      rx_exec pattern (getText ?d) 0 = Some \<lparr>index = 8, matched = utf16 ''FOO''\<rparr>"
    using validateTextDocument_findings[OF a]
  proof (elim exE conjE)
    fix ds
    assume d: "fst (validateTextDocument ?h ?d ?st) = Some ds"
      "length ds = length ?runs"
      "\<forall>k<length ds.
              uppercase_run (getText ?d) (fst (?runs ! k)) (snd (?runs ! k)) \<and>
              rx_exec pattern (getText ?d) (if k = 0 then 0 else snd (?runs ! (k - 1))) =
                Some \<lparr>index = fst (?runs ! k),
                      matched = take (snd (?runs ! k) - fst (?runs ! k)) (drop (fst (?runs ! k)) (getText ?d))\<rparr> \<and>
              (0 < k \<longrightarrow> snd (?runs ! (k - 1)) \<le> fst (?runs ! k)) \<and>
              severity (ds ! k) = Warning \<and>
              range' (ds ! k) = \<lparr>start = positionAt ?d (fst (?runs ! k)),
                                  end' = positionAt ?d (snd (?runs ! k))\<rparr> \<and>
              message (ds ! k) =
                take (snd (?runs ! k) - fst (?runs ! k)) (drop (fst (?runs ! k)) (getText ?d)) @
                utf16 '' is all uppercase.'' \<and>
              source (ds ! k) = utf16 ''ex''"
    from d(2) have len: "length ds = 1" by (simp only: runs) simp
    then obtain d0 where ds: "ds = [d0]" by (cases ds) auto
    from d(3) len have
      "uppercase_run (getText ?d) (fst (?runs ! 0)) (snd (?runs ! 0)) \<and>
       rx_exec pattern (getText ?d) (if (0::nat) = 0 then 0 else snd (?runs ! (0 - 1))) =
         Some \<lparr>index = fst (?runs ! 0),
               matched = take (snd (?runs ! 0) - fst (?runs ! 0)) (drop (fst (?runs ! 0)) (getText ?d))\<rparr> \<and>
       ((0::nat) < 0 \<longrightarrow> snd (?runs ! (0 - 1)) \<le> fst (?runs ! 0)) \<and>
       severity (ds ! 0) = Warning \<and>
       range' (ds ! 0) = \<lparr>start = positionAt ?d (fst (?runs ! 0)),
                            end' = positionAt ?d (snd (?runs ! 0))\<rparr> \<and>
       message (ds ! 0) =
         take (snd (?runs ! 0) - fst (?runs ! 0)) (drop (fst (?runs ! 0)) (getText ?d)) @
         utf16 '' is all uppercase.'' \<and>
       source (ds ! 0) = utf16 ''ex''"
      by simp
    then have z: "uppercase_run (getText ?d) 8 11"
      "rx_exec pattern (getText ?d) 0 = Some \<lparr>index = 8, matched = utf16 ''FOO''\<rparr>"
      "severity d0 = Warning"
      "range' d0 = \<lparr>start = \<lparr>line = 0, character = 8\<rparr>, end' = \<lparr>line = 0, character = 11\<rparr>\<rparr>"
      "message d0 = utf16 ''FOO is all uppercase.''"
      "source d0 = utf16 ''ex''"
      by (simp_all add: t runs_let_X_FOO ds p) (simp_all add: utf16_def)
    from d(1) have "fst (validateTextDocument ?h ?d ?st) = Some [d0]" by (simp only: ds)
    with z show ?thesis by (intro conjI exI[of _ d0])
  qed
  show ?thesis unfolding Let_def using a main by (intro conjI) simp_all
qed

text \<open>
  C3. A line matches \<open>/strings\.\s*$/\<close> exactly when it ends with \<open>strings.\<close>
  followed only by white space, whatever comes before; for every such line the classifier
  returns the seven items of the strings catalog in their fixed order, and so does the
  completion handler on a document whose line up to the cursor is such a line.
\<close>

theorem classify_strings:
  "(rx_test (trigger ''strings'') s \<longleftrightarrow>
      (\<exists>p ws. s = p @ utf16 ''strings.'' @ ws \<and> (\<forall>c\<in>set ws. is_space c))) \<and>
   (rx_test (trigger ''strings'') s \<longrightarrow>
      classify s =
        [item ''has_prefix()'' Method 1, item ''has_suffix()'' Method 2, item ''join()'' Method 3,
         item ''trim_prefix()'' Method 4, item ''to_lower()'' Method 5, item ''to_upper()'' Method 6,
         item ''split()'' Method 7]) \<and>
   (\<forall>document. documents st (textDocument_uri params) = Some document \<and>
      rx_test (trigger ''strings'')
        (getTextRange document
           \<lparr>start = \<lparr>line = line (position params), character = 0\<rparr>, end' = position params\<rparr>) \<longrightarrow>
      map label (onCompletion params st) =
        map utf16 [''has_prefix()'', ''has_suffix()'', ''join()'', ''trim_prefix()'', ''to_lower()'',
                   ''to_upper()'', ''split()''])"
proof (intro conjI allI impI)
  have "utf16 ''strings.'' = utf16 ''strings'' @ [0x2E]" by (simp add: utf16_def)
  then show "rx_test (trigger ''strings'') s \<longleftrightarrow>
      (\<exists>p ws. s = p @ utf16 ''strings.'' @ ws \<and> (\<forall>c\<in>set ws. is_space c))"
    by (simp add: rx_test_trigger)
next
  assume "rx_test (trigger ''strings'') s"
  then show "classify s =
        [item ''has_prefix()'' Method 1, item ''has_suffix()'' Method 2, item ''join()'' Method 3,
         item ''trim_prefix()'' Method 4, item ''to_lower()'' Method 5, item ''to_upper()'' Method 6,
         item ''split()'' Method 7]"
    by (simp add: classify_strings_catalog strings_catalog_def)
next
  fix document
  assume "documents st (textDocument_uri params) = Some document \<and>
      rx_test (trigger ''strings'')
        (getTextRange document
           \<lparr>start = \<lparr>line = line (position params), character = 0\<rparr>, end' = position params\<rparr>)"
  then show "map label (onCompletion params st) =
        map utf16 [''has_prefix()'', ''has_suffix()'', ''join()'', ''trim_prefix()'', ''to_lower()'',
                   ''to_upper()'', ''split()'']"
    by (simp add: onCompletion_def classify_strings_catalog strings_catalog_def item_def)
qed

theorem classify_strings_witness:
  "rx_test (trigger ''strings'') (utf16 ''foo.strings. '') \<and>
   utf16 ''foo.strings. '' = utf16 ''foo.'' @ utf16 ''strings.'' @ utf16 '' '' \<and>
   list_all is_space (utf16 '' '') \<and>
   classify (utf16 ''foo.strings. '') =
     [item ''has_prefix()'' Method 1, item ''has_suffix()'' Method 2, item ''join()'' Method 3,
      item ''trim_prefix()'' Method 4, item ''to_lower()'' Method 5, item ''to_upper()'' Method 6,
      item ''split()'' Method 7] \<and>
   (let document = single_line_document ''file:///a.sentinel'' ''foo.strings. '';
        st = global_server False 1000 document;
        params = \<lparr>textDocument_uri = utf16 ''file:///a.sentinel'', position = \<lparr>line = 0, character = 13\<rparr>\<rparr>
    in documents st (textDocument_uri params) = Some document \<and>
       map label (onCompletion params st) =
         map utf16 [''has_prefix()'', ''has_suffix()'', ''join()'', ''trim_prefix()'', ''to_lower()'',
                    ''to_upper()'', ''split()''])"
proof -
  let ?s = "utf16 ''foo.strings. ''"
  let ?doc = "single_line_document ''file:///a.sentinel'' ''foo.strings. ''"
  let ?st = "global_server False 1000 ?doc"
  let ?pa = "\<lparr>textDocument_uri = utf16 ''file:///a.sentinel'', position = \<lparr>line = 0, character = 13\<rparr>\<rparr>"
  have sp: "\<forall>c\<in>set (utf16 '' ''). is_space c" by (simp add: utf16_def is_space_def)
  have eq: "?s = utf16 ''foo.'' @ utf16 ''strings.'' @ utf16 '' ''" by (simp add: utf16_def)
  have ex: "\<exists>p ws. ?s = p @ utf16 ''strings.'' @ ws \<and> (\<forall>c\<in>set ws. is_space c)"
    using eq sp by blast
  have t: "rx_test (trigger ''strings'') ?s"
    using classify_strings[of ?s, THEN conjunct1] ex by (rule iffD2)
  have c: "classify ?s =
     [item ''has_prefix()'' Method 1, item ''has_suffix()'' Method 2, item ''join()'' Method 3,
      item ''trim_prefix()'' Method 4, item ''to_lower()'' Method 5, item ''to_upper()'' Method 6,
      item ''split()'' Method 7]"
    by (rule classify_strings[of ?s, THEN conjunct2, THEN conjunct1, rule_format, OF t])
  have d: "documents ?st (textDocument_uri ?pa) = Some ?doc"
    by (simp add: global_server_def single_line_document_def)
  have g: "getTextRange ?doc \<lparr>start = \<lparr>line = line (position ?pa), character = 0\<rparr>, end' = position ?pa\<rparr> = ?s"
    by (simp add: single_line_document_def utf16_def)
  have o: "map label (onCompletion ?pa ?st) =
         map utf16 [''has_prefix()'', ''has_suffix()'', ''join()'', ''trim_prefix()'', ''to_lower()'',
                    ''to_upper()'', ''split()'']"
    using t by (intro classify_strings[of ?s ?st ?pa, THEN conjunct2, THEN conjunct2, rule_format, of ?doc]
        conjI d) (simp only: g)
  have sp': "list_all is_space (utf16 '' '')" using sp by (simp add: list_all_iff)
  show ?thesis unfolding Let_def by (intro conjI t eq sp' c d o)
qed

text \<open>
  C4. A line that matches none of the seven trigger patterns is answered with the default
  catalog. That catalog has items labelled \<open>import\<close>, \<open>for\<close>, \<open>if\<close> and
  \<open>return\<close>, and none of its labels is the label of an item of a namespace catalog;
  in particular it has no \<open>has_prefix()\<close>.
\<close>

theorem classify_default:
  "(\<not> rx_test (trigger ''strings'') s \<and> \<not> rx_test (trigger ''json'') s \<and>
    \<not> rx_test (trigger ''http'') s \<and> \<not> rx_test (trigger ''types'') s \<and>
    \<not> rx_test (trigger ''base64'') s \<and> \<not> rx_test (trigger ''time'') s \<and>
    \<not> rx_test (trigger ''decimal'') s \<longrightarrow>
    classify s = default_catalog) \<and>
   utf16 ''import'' \<in> label ` set default_catalog \<and>
   utf16 ''for'' \<in> label ` set default_catalog \<and>
   utf16 ''if'' \<in> label ` set default_catalog \<and>
   utf16 ''return'' \<in> label ` set default_catalog \<and>
   utf16 ''has_prefix()'' \<notin> label ` set default_catalog \<and>
   (\<forall>i\<in>set (strings_catalog @ json_catalog @ http_catalog @ types_catalog @ base64_catalog @
               time_catalog @ decimal_catalog).
      label i \<notin> label ` set default_catalog)"
proof (intro conjI impI)
  assume "\<not> rx_test (trigger ''strings'') s \<and> \<not> rx_test (trigger ''json'') s \<and>
    \<not> rx_test (trigger ''http'') s \<and> \<not> rx_test (trigger ''types'') s \<and>
    \<not> rx_test (trigger ''base64'') s \<and> \<not> rx_test (trigger ''time'') s \<and>
    \<not> rx_test (trigger ''decimal'') s"
  then show "classify s = default_catalog" by (simp add: classify_def)
next
  show "utf16 ''import'' \<in> label ` set default_catalog" by (simp add: default_catalog_def item_def)
  show "utf16 ''for'' \<in> label ` set default_catalog" by (simp add: default_catalog_def item_def)
  show "utf16 ''if'' \<in> label ` set default_catalog" by (simp add: default_catalog_def item_def)
  show "utf16 ''return'' \<in> label ` set default_catalog" by (simp add: default_catalog_def item_def)
  show "utf16 ''has_prefix()'' \<notin> label ` set default_catalog" by code_simp
  show "\<forall>i\<in>set (strings_catalog @ json_catalog @ http_catalog @ types_catalog @ base64_catalog @
               time_catalog @ decimal_catalog).
      label i \<notin> label ` set default_catalog"
    by (rule default_labels_disjoint)
qed

theorem classify_default_witness:
  "(\<not> rx_test (trigger ''strings'') (utf16 ''x = '') \<and> \<not> rx_test (trigger ''json'') (utf16 ''x = '') \<and>
    \<not> rx_test (trigger ''http'') (utf16 ''x = '') \<and> \<not> rx_test (trigger ''types'') (utf16 ''x = '') \<and>
    \<not> rx_test (trigger ''base64'') (utf16 ''x = '') \<and> \<not> rx_test (trigger ''time'') (utf16 ''x = '') \<and>
    \<not> rx_test (trigger ''decimal'') (utf16 ''x = '')) \<and>
   classify (utf16 ''x = '') = default_catalog \<and>
   item ''has_prefix()'' Method 1 \<in> set (strings_catalog @ json_catalog @ http_catalog @ types_catalog @
      base64_catalog @ time_catalog @ decimal_catalog) \<and>
   label (item ''has_prefix()'' Method 1) \<notin> label ` set default_catalog"
proof -
  note n = no_trigger_in_assignment
  have h: "\<not> rx_test (trigger ''strings'') (utf16 ''x = '') \<and> \<not> rx_test (trigger ''json'') (utf16 ''x = '') \<and>
    \<not> rx_test (trigger ''http'') (utf16 ''x = '') \<and> \<not> rx_test (trigger ''types'') (utf16 ''x = '') \<and>
    \<not> rx_test (trigger ''base64'') (utf16 ''x = '') \<and> \<not> rx_test (trigger ''time'') (utf16 ''x = '') \<and>
    \<not> rx_test (trigger ''decimal'') (utf16 ''x = '')"
    by (intro conjI n)
  have c: "classify (utf16 ''x = '') = default_catalog"
    by (rule classify_default[of "utf16 ''x = ''", THEN conjunct1, rule_format, OF h])
  have m: "item ''has_prefix()'' Method 1 \<in> set (strings_catalog @ json_catalog @ http_catalog @
      types_catalog @ base64_catalog @ time_catalog @ decimal_catalog)"
    by (simp add: strings_catalog_def)
  have d: "\<forall>i\<in>set (strings_catalog @ json_catalog @ http_catalog @ types_catalog @ base64_catalog @
               time_catalog @ decimal_catalog).
      label i \<notin> label ` set default_catalog"
    using classify_default[of "utf16 ''x = ''"] by (elim conjE)
  have l: "label (item ''has_prefix()'' Method 1) \<notin> label ` set default_catalog"
    using d m by (rule bspec)
  show ?thesis by (intro conjI n c m l)
qed




text \<open>
  C6. When the client supports scoped configuration, a configuration-change notification
  empties the cache of document settings (and asks the client to refresh diagnostics).
  The next \<open>getDocumentSettings\<close> for any uri then finds no entry, sends a new
  configuration request for that uri and caches and returns the promise of that request.
\<close>

theorem configuration_change_clears_cache:
  assumes "hasConfigurationCapability st"
  shows "\<exists>st'. onDidChangeConfiguration change st = Inr st' \<and>
           documentSettings st' = Map.empty \<and>
           sent st' = sent st @ [DiagnosticsRefresh] \<and>
           (\<forall>resource.
              documentSettings st' resource = None \<and>
              getDocumentSettings resource st' =
                (Pending (length (sent st')),
                 st'\<lparr>sent := sent st' @ [GetConfiguration resource (utf16 ''languageServerExample'')],
                     documentSettings := [resource \<mapsto> Pending (length (sent st'))]\<rparr>))"
proof -
  let ?st' = "refresh (st\<lparr>documentSettings := Map.empty\<rparr>)"
  have 1: "onDidChangeConfiguration change st = Inr ?st'"
    using assms by (simp add: onDidChangeConfiguration_def)
  have 2: "documentSettings ?st' = Map.empty" "sent ?st' = sent st @ [DiagnosticsRefresh]"
    "hasConfigurationCapability ?st'"
    using assms by (simp_all add: refresh_def)
  have 3: "\<forall>resource.
              documentSettings ?st' resource = None \<and>
              getDocumentSettings resource ?st' =
                (Pending (length (sent ?st')),
                 ?st'\<lparr>sent := sent ?st' @ [GetConfiguration resource (utf16 ''languageServerExample'')],
                      documentSettings := [resource \<mapsto> Pending (length (sent ?st'))]\<rparr>)"
    using 2 by (simp add: getDocumentSettings_def Let_def)
  show ?thesis by (intro exI[of _ ?st'] conjI 1 2(1,2) 3)
qed

theorem configuration_change_clears_cache_witness:
  "(let u = utf16 ''file:///a.sentinel''; st = scoped_server u
    in hasConfigurationCapability st \<and>
       getDocumentSettings u st = (Pending 0, st) \<and>
       (\<exists>st'. onDidChangeConfiguration \<lparr>settings = None\<rparr> st = Inr st' \<and>
          documentSettings st' = Map.empty \<and>
          getDocumentSettings u st' =
            (Pending 2,
             st'\<lparr>sent := [GetConfiguration u (utf16 ''languageServerExample''), DiagnosticsRefresh,
                           GetConfiguration u (utf16 ''languageServerExample'')],
                 documentSettings := [u \<mapsto> Pending 2]\<rparr>)))"
proof -
  let ?u = "utf16 ''file:///a.sentinel''"
  let ?st = "scoped_server ?u"
  have c: "hasConfigurationCapability ?st" by (simp add: scoped_server_def)
  have hit: "getDocumentSettings ?u ?st = (Pending 0, ?st)"
    by (simp add: getDocumentSettings_def scoped_server_def)
  have s: "sent ?st = [GetConfiguration ?u (utf16 ''languageServerExample'')]"
    by (simp add: scoped_server_def)
  have "\<exists>st'. onDidChangeConfiguration \<lparr>settings = None\<rparr> ?st = Inr st' \<and>
          documentSettings st' = Map.empty \<and>
          getDocumentSettings ?u st' =
            (Pending 2,
             st'\<lparr>sent := [GetConfiguration ?u (utf16 ''languageServerExample''), DiagnosticsRefresh,
                           GetConfiguration ?u (utf16 ''languageServerExample'')],
                 documentSettings := [?u \<mapsto> Pending 2]\<rparr>)"
    using configuration_change_clears_cache[OF c, of "\<lparr>settings = None\<rparr>"]
  proof (elim exE conjE)
    fix st'
    assume a: "onDidChangeConfiguration \<lparr>settings = None\<rparr> ?st = Inr st'"
      "documentSettings st' = Map.empty"
      "sent st' = sent ?st @ [DiagnosticsRefresh]"
      "\<forall>resource.
              documentSettings st' resource = None \<and>
              getDocumentSettings resource st' =
                (Pending (length (sent st')),
                 st'\<lparr>sent := sent st' @ [GetConfiguration resource (utf16 ''languageServerExample'')],
                     documentSettings := [resource \<mapsto> Pending (length (sent st'))]\<rparr>)"
    from a(3) have s': "sent st' = [GetConfiguration ?u (utf16 ''languageServerExample''), DiagnosticsRefresh]"
      by (simp only: s) simp
    from a(4)[THEN spec, of ?u] have "getDocumentSettings ?u st' =
                (Pending (length (sent st')),
                 st'\<lparr>sent := sent st' @ [GetConfiguration ?u (utf16 ''languageServerExample'')],
                     documentSettings := [?u \<mapsto> Pending (length (sent st'))]\<rparr>)"
      by (elim conjE)
    then have "getDocumentSettings ?u st' =
            (Pending 2,
             st'\<lparr>sent := [GetConfiguration ?u (utf16 ''languageServerExample''), DiagnosticsRefresh,
                           GetConfiguration ?u (utf16 ''languageServerExample'')],
                 documentSettings := [?u \<mapsto> Pending 2]\<rparr>)"
      by (simp only: s') (simp add: numeral_2_eq_2)
    with a(1,2) show ?thesis by (intro exI[of _ st'] conjI)
  qed
  with c hit show ?thesis unfolding Let_def by (intro conjI)
qed

text \<open>
  C7. A diagnostics pull request for a uri that is not in the document store is answered
  with the full report without items, and the server is unchanged; for a uri in the store
  the answer is the full report whose items are what \<open>validateTextDocument\<close> returns
  for that document.
\<close>

theorem diagnostics_on_report:
  "(documents st (textDocument_uri params) = None \<longrightarrow>
      diagnostics_on host params st = (Some \<lparr>report_kind = Full, items = []\<rparr>, st)) \<and>
   (\<forall>document docSettings.
      documents st (textDocument_uri params) = Some document \<and>
      await host (fst (getDocumentSettings (uri document) st)) = Some docSettings \<longrightarrow>
      (\<exists>ds. fst (validateTextDocument host document st) = Some ds \<and>
            fst (diagnostics_on host params st) = Some \<lparr>report_kind = Full, items = ds\<rparr>))"
proof (intro conjI impI allI)
  assume "documents st (textDocument_uri params) = None"
  then show "diagnostics_on host params st = (Some \<lparr>report_kind = Full, items = []\<rparr>, st)"
    by (simp add: diagnostics_on_def)
next
  fix document docSettings
  assume h: "documents st (textDocument_uri params) = Some document \<and>
             await host (fst (getDocumentSettings (uri document) st)) = Some docSettings"
  then have v: "validateTextDocument host document st =
      (Some (map (finding_of (hasDiagnosticRelatedInformationCapability st) document (getText document))
               (take (nat (maxNumberOfProblems docSettings)) (uppercase_runs (getText document)))),
       snd (getDocumentSettings (uri document) st))"
    by (simp add: validateTextDocument_Some)
  from h show "\<exists>ds. fst (validateTextDocument host document st) = Some ds \<and>
            fst (diagnostics_on host params st) = Some \<lparr>report_kind = Full, items = ds\<rparr>"
    by (simp add: diagnostics_on_def v)
qed

theorem diagnostics_on_report_witness:
  "(let document = single_line_document ''file:///a.sentinel'' ''let X = FOO'';
        st = global_server False 1000 document;
        host = (\<lambda>n. None);
        params = \<lparr>textDocument_uri = utf16 ''file:///b.sentinel''\<rparr>
    in documents st (textDocument_uri params) = None \<and>
       diagnostics_on host params st = (Some \<lparr>report_kind = Full, items = []\<rparr>, st)) \<and>
   (let document = single_line_document ''file:///a.sentinel'' ''let X = FOO'';
        st = global_server False 1000 document;
        host = (\<lambda>n. None);
        params = \<lparr>textDocument_uri = utf16 ''file:///a.sentinel''\<rparr>
    in documents st (textDocument_uri params) = Some document \<and>
       await host (fst (getDocumentSettings (uri document) st)) = Some \<lparr>maxNumberOfProblems = 1000\<rparr> \<and>
       (\<exists>ds. fst (validateTextDocument host document st) = Some ds \<and>
             fst (diagnostics_on host params st) = Some \<lparr>report_kind = Full, items = ds\<rparr>) \<and>
       fst (diagnostics_on host params st) =
         Some \<lparr>report_kind = Full,
               items = [finding_of False document (utf16 ''let X = FOO'') (8, 11)]\<rparr>)"
proof -
  let ?doc = "single_line_document ''file:///a.sentinel'' ''let X = FOO''"
  let ?st = "global_server False 1000 ?doc"
  let ?h = "\<lambda>n::nat. None :: ExampleSettings option"
  let ?pa = "\<lparr>textDocument_uri = utf16 ''file:///a.sentinel''\<rparr>"
  let ?pb = "\<lparr>textDocument_uri = utf16 ''file:///b.sentinel''\<rparr>"
  have nb: "documents ?st (textDocument_uri ?pb) = None"
    by (simp add: global_server_def single_line_document_def utf16_def)
  have sa: "documents ?st (textDocument_uri ?pa) = Some ?doc"
    by (simp add: global_server_def single_line_document_def)
  have a: "await ?h (fst (getDocumentSettings (uri ?doc) ?st)) = Some \<lparr>maxNumberOfProblems = 1000\<rparr>"
    by (simp add: getDocumentSettings_def global_server_def)
  have b: "diagnostics_on ?h ?pb ?st = (Some \<lparr>report_kind = Full, items = []\<rparr>, ?st)"
    by (rule diagnostics_on_report[of ?st ?pb ?h, THEN conjunct1, rule_format, OF nb])
  have c: "\<exists>ds. fst (validateTextDocument ?h ?doc ?st) = Some ds \<and>
             fst (diagnostics_on ?h ?pa ?st) = Some \<lparr>report_kind = Full, items = ds\<rparr>"
    by (rule diagnostics_on_report[of ?st ?pa ?h, THEN conjunct2, rule_format, OF conjI[OF sa a]])
  from c have e: "fst (diagnostics_on ?h ?pa ?st) =
         Some \<lparr>report_kind = Full, items = [finding_of False ?doc (utf16 ''let X = FOO'') (8, 11)]\<rparr>"
    by (simp only: validate_let_X_FOO) simp
  show ?thesis unfolding Let_def by (intro conjI nb sa a b c e)
qed

text \<open>
  C8. Every finding of the validator carries, when the client has the related-information
  capability, exactly two related-information entries, with the messages
  \<open>Spelling matters\<close> and \<open>Particularly for names\<close>, each located at the document's
  uri and the finding's own range; without the capability a finding carries none.
\<close>

theorem validateTextDocument_relatedInformation:
  assumes "await host (fst (getDocumentSettings (uri textDocument) st)) = Some docSettings"
  shows "\<exists>ds. fst (validateTextDocument host textDocument st) = Some ds \<and>
           (\<forall>d\<in>set ds.
              (hasDiagnosticRelatedInformationCapability st \<longrightarrow>
                 relatedInformation d =
                   Some [\<lparr>location = \<lparr>location_uri = uri textDocument, location_range = range' d\<rparr>,
                          related_message = utf16 ''Spelling matters''\<rparr>,
                         \<lparr>location = \<lparr>location_uri = uri textDocument, location_range = range' d\<rparr>,
                          related_message = utf16 ''Particularly for names''\<rparr>]) \<and>
              (\<not> hasDiagnosticRelatedInformationCapability st \<longrightarrow> relatedInformation d = None))"
proof -
  let ?f = "finding_of (hasDiagnosticRelatedInformationCapability st) textDocument (getText textDocument)"
  let ?ds = "map ?f (take (nat (maxNumberOfProblems docSettings)) (uppercase_runs (getText textDocument)))"
  have r: "fst (validateTextDocument host textDocument st) = Some ?ds"
    by (simp add: validateTextDocument_Some[OF assms])
  have each: "\<forall>d\<in>set ?ds.
              (hasDiagnosticRelatedInformationCapability st \<longrightarrow>
                 relatedInformation d =
                   Some [\<lparr>location = \<lparr>location_uri = uri textDocument, location_range = range' d\<rparr>,
                          related_message = utf16 ''Spelling matters''\<rparr>,
                         \<lparr>location = \<lparr>location_uri = uri textDocument, location_range = range' d\<rparr>,
                          related_message = utf16 ''Particularly for names''\<rparr>]) \<and>
              (\<not> hasDiagnosticRelatedInformationCapability st \<longrightarrow> relatedInformation d = None)"
    by (simp add: finding_of_def)
  show ?thesis by (intro exI[of _ ?ds] conjI r each)
qed

theorem validateTextDocument_relatedInformation_witness:
  "(let textDocument = single_line_document ''file:///a.sentinel'' ''let X = FOO'';
        st = global_server True 1000 textDocument;
        host = (\<lambda>n. None);
        r = \<lparr>start = \<lparr>line = 0, character = 8\<rparr>, end' = \<lparr>line = 0, character = 11\<rparr>\<rparr>
    in await host (fst (getDocumentSettings (uri textDocument) st)) = Some \<lparr>maxNumberOfProblems = 1000\<rparr> \<and>
       hasDiagnosticRelatedInformationCapability st \<and>
       (\<exists>d. fst (validateTextDocument host textDocument st) = Some [d] \<and> d \<in> set [d] \<and> range' d = r \<and>
          relatedInformation d =
            Some [\<lparr>location = \<lparr>location_uri = utf16 ''file:///a.sentinel'', location_range = r\<rparr>,
                   related_message = utf16 ''Spelling matters''\<rparr>,
                  \<lparr>location = \<lparr>location_uri = utf16 ''file:///a.sentinel'', location_range = r\<rparr>,
                   related_message = utf16 ''Particularly for names''\<rparr>])) \<and>
   (let textDocument = single_line_document ''file:///a.sentinel'' ''let X = FOO'';
        st = global_server False 1000 textDocument;
        host = (\<lambda>n. None)
    in await host (fst (getDocumentSettings (uri textDocument) st)) = Some \<lparr>maxNumberOfProblems = 1000\<rparr> \<and>
       \<not> hasDiagnosticRelatedInformationCapability st \<and>
       (\<exists>d. fst (validateTextDocument host textDocument st) = Some [d] \<and> d \<in> set [d] \<and>
          relatedInformation d = None))"
proof -
  let ?doc = "single_line_document ''file:///a.sentinel'' ''let X = FOO''"
  let ?h = "\<lambda>n::nat. None :: ExampleSettings option"
  let ?r = "\<lparr>start = \<lparr>line = 0, character = 8\<rparr>, end' = \<lparr>line = 0, character = 11\<rparr>\<rparr>"
  have a: "await ?h (fst (getDocumentSettings (uri ?doc) (global_server related 1000 ?doc))) =
             Some \<lparr>maxNumberOfProblems = 1000\<rparr>" for related
    by (simp add: getDocumentSettings_def global_server_def)
  have f: "hasDiagnosticRelatedInformationCapability (global_server related 1000 ?doc) = related" for related
    by (simp add: global_server_def)
  have u: "uri ?doc = utf16 ''file:///a.sentinel''" by (simp add: single_line_document_def)
  have rg: "range' (finding_of related ?doc (utf16 ''let X = FOO'') (8, 11)) = ?r" for related
    by (simp add: finding_of_def single_line_document_def)
  have yes: "\<exists>d. fst (validateTextDocument ?h ?doc (global_server True 1000 ?doc)) = Some [d] \<and> d \<in> set [d] \<and>
          range' d = ?r \<and>
          relatedInformation d =
            Some [\<lparr>location = \<lparr>location_uri = utf16 ''file:///a.sentinel'', location_range = ?r\<rparr>,
                   related_message = utf16 ''Spelling matters''\<rparr>,
                  \<lparr>location = \<lparr>location_uri = utf16 ''file:///a.sentinel'', location_range = ?r\<rparr>,
                   related_message = utf16 ''Particularly for names''\<rparr>]"
    using validateTextDocument_relatedInformation[OF a[of True]]
  proof (elim exE conjE)
    fix ds
    let ?fnd = "finding_of True ?doc (utf16 ''let X = FOO'') (8, 11)"
    assume d: "fst (validateTextDocument ?h ?doc (global_server True 1000 ?doc)) = Some ds"
      "\<forall>d\<in>set ds.
         (hasDiagnosticRelatedInformationCapability (global_server True 1000 ?doc) \<longrightarrow>
            relatedInformation d =
              Some [\<lparr>location = \<lparr>location_uri = uri ?doc, location_range = range' d\<rparr>,
                     related_message = utf16 ''Spelling matters''\<rparr>,
                    \<lparr>location = \<lparr>location_uri = uri ?doc, location_range = range' d\<rparr>,
                     related_message = utf16 ''Particularly for names''\<rparr>]) \<and>
         (\<not> hasDiagnosticRelatedInformationCapability (global_server True 1000 ?doc) \<longrightarrow>
            relatedInformation d = None)"
    from d(1) have ds: "ds = [?fnd]" by (simp only: validate_let_X_FOO option.inject)
    with d(2) have "relatedInformation ?fnd =
              Some [\<lparr>location = \<lparr>location_uri = uri ?doc, location_range = range' ?fnd\<rparr>,
                     related_message = utf16 ''Spelling matters''\<rparr>,
                    \<lparr>location = \<lparr>location_uri = uri ?doc, location_range = range' ?fnd\<rparr>,
                     related_message = utf16 ''Particularly for names''\<rparr>]"
      by (simp add: f)
    then have "relatedInformation ?fnd =
            Some [\<lparr>location = \<lparr>location_uri = utf16 ''file:///a.sentinel'', location_range = ?r\<rparr>,
                   related_message = utf16 ''Spelling matters''\<rparr>,
                  \<lparr>location = \<lparr>location_uri = utf16 ''file:///a.sentinel'', location_range = ?r\<rparr>,
                   related_message = utf16 ''Particularly for names''\<rparr>]"
      by (simp only: u rg)
    moreover from d(1) have "fst (validateTextDocument ?h ?doc (global_server True 1000 ?doc)) = Some [?fnd]"
      by (simp only: ds)
    moreover have "?fnd \<in> set [?fnd]" by simp
    ultimately show ?thesis using rg[of True] by (intro exI[of _ ?fnd] conjI)
  qed
  have no: "\<exists>d. fst (validateTextDocument ?h ?doc (global_server False 1000 ?doc)) = Some [d] \<and> d \<in> set [d] \<and>
          relatedInformation d = None"
    using validateTextDocument_relatedInformation[OF a[of False]]
  proof (elim exE conjE)
    fix ds
    let ?fnd = "finding_of False ?doc (utf16 ''let X = FOO'') (8, 11)"
    assume d: "fst (validateTextDocument ?h ?doc (global_server False 1000 ?doc)) = Some ds"
      "\<forall>d\<in>set ds.
         (hasDiagnosticRelatedInformationCapability (global_server False 1000 ?doc) \<longrightarrow>
            relatedInformation d =
              Some [\<lparr>location = \<lparr>location_uri = uri ?doc, location_range = range' d\<rparr>,
                     related_message = utf16 ''Spelling matters''\<rparr>,
                    \<lparr>location = \<lparr>location_uri = uri ?doc, location_range = range' d\<rparr>,
                     related_message = utf16 ''Particularly for names''\<rparr>]) \<and>
         (\<not> hasDiagnosticRelatedInformationCapability (global_server False 1000 ?doc) \<longrightarrow>
            relatedInformation d = None)"
    from d(1) have ds: "ds = [?fnd]" by (simp only: validate_let_X_FOO option.inject)
    with d(2) have "relatedInformation ?fnd = None" by (simp add: f)
    moreover from d(1) have "fst (validateTextDocument ?h ?doc (global_server False 1000 ?doc)) = Some [?fnd]"
      by (simp only: ds)
    moreover have "?fnd \<in> set [?fnd]" by simp
    ultimately show ?thesis by (intro exI[of _ ?fnd] conjI)
  qed
  show ?thesis unfolding Let_def using a f yes no by (intro conjI) simp_all
qed

text \<open>
  C9. The first item of each of the seven namespace catalogs has \<open>data\<close> 1, and
  resolving looks at \<open>data\<close> alone: whatever the label and kind, an item with
  \<open>data\<close> 1 is returned with the detail and documentation of the keyword
  \<open>import\<close>. So the first item of whatever namespace catalog the classifier returns,
  such as \<open>has_prefix()\<close> or \<open>marshal()\<close>, is changed by resolving.
\<close>

theorem namespace_first_item_resolves_as_import:
  "(\<forall>c\<in>{strings_catalog, json_catalog, http_catalog, types_catalog, base64_catalog,
          time_catalog, decimal_catalog}.
      c \<noteq> [] \<and> data (hd c) = 1 \<and>
      onCompletionResolve (hd c) =
        (hd c)\<lparr>detail := Some (utf16 ''Import plugin or standard library''),
                documentation := Some (utf16 ''Import keyword allow us to import libraries'')\<rparr> \<and>
      onCompletionResolve (hd c) \<noteq> hd c) \<and>
   (classify s \<noteq> default_catalog \<longrightarrow>
      classify s \<noteq> [] \<and> data (hd (classify s)) = 1 \<and>
      detail (onCompletionResolve (hd (classify s))) = Some (utf16 ''Import plugin or standard library'')) \<and>
   (\<forall>l k. detail (onCompletionResolve (item l k 1)) = Some (utf16 ''Import plugin or standard library'') \<and>
          documentation (onCompletionResolve (item l k 1)) =
            Some (utf16 ''Import keyword allow us to import libraries'')) \<and>
   hd strings_catalog = item ''has_prefix()'' Method 1 \<and>
   onCompletionResolve (item ''has_prefix()'' Method 1) =
     \<lparr>label = utf16 ''has_prefix()'', kind = Method, data = 1,
      detail = Some (utf16 ''Import plugin or standard library''),
      documentation = Some (utf16 ''Import keyword allow us to import libraries'')\<rparr> \<and>
   hd json_catalog = item ''marshal()'' Method 1 \<and>
   onCompletionResolve (item ''marshal()'' Method 1) =
     \<lparr>label = utf16 ''marshal()'', kind = Method, data = 1,
      detail = Some (utf16 ''Import plugin or standard library''),
      documentation = Some (utf16 ''Import keyword allow us to import libraries'')\<rparr>"
proof -
  have first: "\<forall>c\<in>{strings_catalog, json_catalog, http_catalog, types_catalog, base64_catalog,
          time_catalog, decimal_catalog}.
      c \<noteq> [] \<and> data (hd c) = 1 \<and>
      onCompletionResolve (hd c) =
        (hd c)\<lparr>detail := Some (utf16 ''Import plugin or standard library''),
                documentation := Some (utf16 ''Import keyword allow us to import libraries'')\<rparr> \<and>
      onCompletionResolve (hd c) \<noteq> hd c"
    by (simp add: strings_catalog_def json_catalog_def http_catalog_def types_catalog_def
        base64_catalog_def time_catalog_def decimal_catalog_def item_def onCompletionResolve_def)
  have cl: "classify s \<noteq> default_catalog \<longrightarrow>
      classify s \<noteq> [] \<and> data (hd (classify s)) = 1 \<and>
      detail (onCompletionResolve (hd (classify s))) = Some (utf16 ''Import plugin or standard library'')"
  proof
    assume "classify s \<noteq> default_catalog"
    with classify_range[of s] have m: "classify s \<in> {strings_catalog, json_catalog, http_catalog,
        types_catalog, base64_catalog, time_catalog, decimal_catalog}"
      by simp
    from bspec[OF first m] have "classify s \<noteq> [] \<and> data (hd (classify s)) = 1 \<and>
      onCompletionResolve (hd (classify s)) =
        (hd (classify s))\<lparr>detail := Some (utf16 ''Import plugin or standard library''),
                documentation := Some (utf16 ''Import keyword allow us to import libraries'')\<rparr>"
      by (elim conjE) (intro conjI)
    then show "classify s \<noteq> [] \<and> data (hd (classify s)) = 1 \<and>
      detail (onCompletionResolve (hd (classify s))) = Some (utf16 ''Import plugin or standard library'')"
      by simp
  qed
  have rest: "(\<forall>l k. detail (onCompletionResolve (item l k 1)) = Some (utf16 ''Import plugin or standard library'') \<and>
          documentation (onCompletionResolve (item l k 1)) =
            Some (utf16 ''Import keyword allow us to import libraries''))"
    "hd strings_catalog = item ''has_prefix()'' Method 1"
    "onCompletionResolve (item ''has_prefix()'' Method 1) =
     \<lparr>label = utf16 ''has_prefix()'', kind = Method, data = 1,
      detail = Some (utf16 ''Import plugin or standard library''),
      documentation = Some (utf16 ''Import keyword allow us to import libraries'')\<rparr>"
    "hd json_catalog = item ''marshal()'' Method 1"
    "onCompletionResolve (item ''marshal()'' Method 1) =
     \<lparr>label = utf16 ''marshal()'', kind = Method, data = 1,
      detail = Some (utf16 ''Import plugin or standard library''),
      documentation = Some (utf16 ''Import keyword allow us to import libraries'')\<rparr>"
    by (simp_all add: strings_catalog_def json_catalog_def item_def onCompletionResolve_def)
  show ?thesis by (intro conjI first cl rest)
qed

theorem namespace_first_item_resolves_as_import_witness:
  "json_catalog \<in> {strings_catalog, json_catalog, http_catalog, types_catalog, base64_catalog,
          time_catalog, decimal_catalog} \<and>
   data (hd json_catalog) = 1 \<and> onCompletionResolve (hd json_catalog) \<noteq> hd json_catalog \<and>
   classify (utf16 ''json.'') \<noteq> default_catalog \<and>
   data (hd (classify (utf16 ''json.''))) = 1 \<and>
   detail (onCompletionResolve (hd (classify (utf16 ''json.'')))) =
     Some (utf16 ''Import plugin or standard library'')"
proof -
  note w = namespace_first_item_resolves_as_import[of "utf16 ''json.''"]
  have m: "json_catalog \<in> {strings_catalog, json_catalog, http_catalog, types_catalog, base64_catalog,
          time_catalog, decimal_catalog}" by simp
  from w have "\<forall>c\<in>{strings_catalog, json_catalog, http_catalog, types_catalog, base64_catalog,
          time_catalog, decimal_catalog}.
      c \<noteq> [] \<and> data (hd c) = 1 \<and>
      onCompletionResolve (hd c) =
        (hd c)\<lparr>detail := Some (utf16 ''Import plugin or standard library''),
                documentation := Some (utf16 ''Import keyword allow us to import libraries'')\<rparr> \<and>
      onCompletionResolve (hd c) \<noteq> hd c"
    by (elim conjE)
  from bspec[OF this m] have j: "data (hd json_catalog) = 1 \<and> onCompletionResolve (hd json_catalog) \<noteq> hd json_catalog"
    by (elim conjE) (intro conjI)
  have c: "classify (utf16 ''json.'') = json_catalog"
    using rx_test_trigger_suffix[of "[]" "''json''" "[]"] by (simp add: classify_json_catalog)
  have n: "classify (utf16 ''json.'') \<noteq> default_catalog"
    using default_catalog_not_namespace unfolding c by auto
  from w[THEN conjunct2, THEN conjunct1, rule_format, OF n]
  have r: "data (hd (classify (utf16 ''json.''))) = 1 \<and>
    detail (onCompletionResolve (hd (classify (utf16 ''json.'')))) =
       Some (utf16 ''Import plugin or standard library'')"
    by (elim conjE) (intro conjI)
  show ?thesis by (intro conjI m j[THEN conjunct1] j[THEN conjunct2] n r[THEN conjunct1] r[THEN conjunct2])
qed

text \<open>
  C10. The trigger patterns only look at the end of the line: whatever text \<open>p\<close>
  comes before the namespace name, also a longer identifier as in \<open>ajson.\<close> or
  \<open>myhttp.\<close>, a line that ends with the name, a dot and white space is answered with
  that namespace's catalog, which is never the default catalog.
\<close>

theorem classify_right_anchored:
  assumes "\<forall>c\<in>set ws. is_space c"
  shows "classify (p @ utf16 ''strings.'' @ ws) = strings_catalog \<and>
         classify (p @ utf16 ''json.'' @ ws) = json_catalog \<and>
         classify (p @ utf16 ''http.'' @ ws) = http_catalog \<and>
         classify (p @ utf16 ''types.'' @ ws) = types_catalog \<and>
         classify (p @ utf16 ''base64.'' @ ws) = base64_catalog \<and>
         classify (p @ utf16 ''time.'' @ ws) = time_catalog \<and>
         classify (p @ utf16 ''decimal.'' @ ws) = decimal_catalog \<and>
         classify (utf16 ''ajson.'') = json_catalog \<and>
         classify (utf16 ''myhttp.'') = http_catalog \<and>
         default_catalog \<notin> {strings_catalog, json_catalog, http_catalog, types_catalog,
                               base64_catalog, time_catalog, decimal_catalog}"
proof (intro conjI)
  note t = rx_test_trigger_suffix[OF assms, of _ p]
  show "classify (p @ utf16 ''strings.'' @ ws) = strings_catalog"
    using t[of "''strings''"] by (simp add: classify_strings_catalog)
  show "classify (p @ utf16 ''json.'' @ ws) = json_catalog"
    using t[of "''json''"] by (simp add: classify_json_catalog)
  show "classify (p @ utf16 ''http.'' @ ws) = http_catalog"
    using t[of "''http''"] by (simp add: classify_http_catalog)
  show "classify (p @ utf16 ''types.'' @ ws) = types_catalog"
    using t[of "''types''"] by (simp add: classify_types_catalog)
  show "classify (p @ utf16 ''base64.'' @ ws) = base64_catalog"
    using t[of "''base64''"] by (simp add: classify_base64_catalog)
  show "classify (p @ utf16 ''time.'' @ ws) = time_catalog"
    using t[of "''time''"] by (simp add: classify_time_catalog)
  show "classify (p @ utf16 ''decimal.'' @ ws) = decimal_catalog"
    using t[of "''decimal''"] by (simp add: classify_decimal_catalog)
  have e: "\<forall>c\<in>set ([] :: jsstring). is_space c" by simp
  have "utf16 ''ajson.'' = utf16 ''a'' @ utf16 (''json'' @ ''.'') @ []"
    "utf16 ''myhttp.'' = utf16 ''my'' @ utf16 (''http'' @ ''.'') @ []"
    by (simp_all add: utf16_def)
  then show "classify (utf16 ''ajson.'') = json_catalog" "classify (utf16 ''myhttp.'') = http_catalog"
    using rx_test_trigger_suffix[OF e, of "''json''" "utf16 ''a''"]
      rx_test_trigger_suffix[OF e, of "''http''" "utf16 ''my''"]
    by (simp_all only: classify_json_catalog classify_http_catalog)
  show "default_catalog \<notin> {strings_catalog, json_catalog, http_catalog, types_catalog,
                               base64_catalog, time_catalog, decimal_catalog}"
    by (rule default_catalog_not_namespace)
qed

theorem classify_right_anchored_witness:
  "list_all is_space (utf16 '' '') \<and>
   classify (utf16 ''x = ajson. '') = json_catalog \<and>
   classify (utf16 ''x = myhttp. '') = http_catalog \<and>
   json_catalog \<noteq> default_catalog \<and> http_catalog \<noteq> default_catalog"
proof -
  have sp: "\<forall>c\<in>set (utf16 '' ''). is_space c" by (simp add: utf16_def is_space_def)
  note w1 = classify_right_anchored[OF sp, of "utf16 ''x = a''"]
  note w2 = classify_right_anchored[OF sp, of "utf16 ''x = my''"]
  have 1: "classify (utf16 ''x = ajson. '') = json_catalog"
    using w1 by (simp add: utf16_def)
  have 2: "classify (utf16 ''x = myhttp. '') = http_catalog"
    using w2 by (simp add: utf16_def)
  have 3: "json_catalog \<noteq> default_catalog" "http_catalog \<noteq> default_catalog"
    using w1 by auto
  have sp': "list_all is_space (utf16 '' '')" using sp by (simp add: list_all_iff)
  show ?thesis by (intro conjI sp' 1 2 3)
qed

end
